theory Spec2Isabelle
  imports Main "HOL-Library.Word"
begin

section \<open>C integers\<close>

text \<open>
  \<^verbatim>\<open>COM_ExecutionSystem.cc\<close> computes with C++ \<^verbatim>\<open>int\<close>: 32 bits, two's complement,
  read here with \<open>sint\<close>. Signed overflow and division by zero are undefined behaviour
  in C++; the model makes each of them an error value, so that a result \<open>Inr\<close> is a run
  in which no arithmetic step left the range of \<^verbatim>\<open>int\<close>.
\<close>

type_synonym c_int = "32 word"

datatype error =
    SignedOverflow
  | DivisionByZero
  | AssertionFailed string
  | BlockedForever
  | NegativeSize
  | UnassignedPointer

definition c_int_of :: "int \<Rightarrow> error + c_int" where
  "c_int_of v =
     (if - 2147483648 \<le> v \<and> v \<le> 2147483647 then Inr (word_of_int v) else Inl SignedOverflow)"

definition c_add :: "c_int \<Rightarrow> c_int \<Rightarrow> error + c_int" where
  "c_add a b = c_int_of (sint a + sint b)"

definition c_sub :: "c_int \<Rightarrow> c_int \<Rightarrow> error + c_int" where
  "c_sub a b = c_int_of (sint a - sint b)"

definition c_mul :: "c_int \<Rightarrow> c_int \<Rightarrow> error + c_int" where
  "c_mul a b = c_int_of (sint a * sint b)"

text \<open>C++ division truncates towards zero.\<close>

definition c_div :: "c_int \<Rightarrow> c_int \<Rightarrow> error + c_int" where
  "c_div a b =
     (if sint b = 0 then Inl DivisionByZero
      else c_int_of (sgn (sint a) * sgn (sint b) * (\<bar>sint a\<bar> div \<bar>sint b\<bar>)))"

text \<open>
  Modelled from the spec: \<^verbatim>\<open>MIN2\<close> is a macro of \<^verbatim>\<open>BLI_utildefines.h\<close>, which is not
  among the sources; the spec reads its use as "Let K = min(configured CPU worker count,
  H)".
\<close>

definition MIN2 :: "c_int \<Rightarrow> c_int \<Rightarrow> c_int" where
  "MIN2 a b = (if sint a < sint b then a else b)"

text \<open>
  \<^verbatim>\<open>BLI_assert\<close> and \<^verbatim>\<open>BLI_assert_msg\<close> are macros declared outside the sources. Whether
  the build compiles assertions in is the parameter \<open>asserts\<close>: with it a false condition
  stops the program, without it the macro does nothing and the statement after it runs
  (in the constructor the \<^verbatim>\<open>break\<close> that follows \<^verbatim>\<open>BLI_assert_msg(0, ...)\<close>).
\<close>

definition BLI_assert :: "bool \<Rightarrow> bool \<Rightarrow> string \<Rightarrow> error + unit" where
  "BLI_assert asserts cond msg = (if asserts \<and> \<not> cond then Inl (AssertionFailed msg) else Inr ())"

section \<open>Rectangles\<close>

record rcti =
  xmin :: c_int
  xmax :: c_int
  ymin :: c_int
  ymax :: c_int

text \<open>
  Modelled from the spec: \<^verbatim>\<open>BLI_rcti_size_y\<close> belongs to \<^verbatim>\<open>BLI_rect.h\<close>, which is not
  among the sources; the height of a region ("Let H = region height") is its upper bound
  minus its lower bound.
\<close>

definition BLI_rcti_size_y :: "rcti \<Rightarrow> error + c_int" where
  "BLI_rcti_size_y rect = c_sub (ymax rect) (ymin rect)"

text \<open>
  Modelled from the spec: \<^verbatim>\<open>BLI_rcti_init\<close> belongs to \<^verbatim>\<open>BLI_rect.h\<close>, which is not
  among the sources; a sub-rectangle is initialised with "that sub-region's exact bounds".
\<close>

definition BLI_rcti_init :: "c_int \<Rightarrow> c_int \<Rightarrow> c_int \<Rightarrow> c_int \<Rightarrow> rcti" where
  "BLI_rcti_init x0 x1 y0 y1 = \<lparr>xmin = x0, xmax = x1, ymin = y0, ymax = y1\<rparr>"

section \<open>Work packages, events and the world\<close>

datatype eWorkPackageType = Tile | CustomFunction

text \<open>
  A \<^verbatim>\<open>WorkPackage\<close> of \<^verbatim>\<open>execute_work\<close> holds two closures. They are kept as the values
  they capture: \<^verbatim>\<open>execute_fn\<close> copies \<^verbatim>\<open>sub_work_y\<close> and \<^verbatim>\<open>sub_work_height\<close> and refers
  to \<^verbatim>\<open>work_rect\<close>; \<^verbatim>\<open>executed_fn\<close> refers to \<^verbatim>\<open>num_sub_works\<close> (a constant of the
  call) and to the counter \<^verbatim>\<open>num_sub_works_finished\<close>, which is a cell of the world.
\<close>

record WorkPackage =
  type :: eWorkPackageType
  cap_work_rect :: rcti
  cap_sub_work_y :: c_int
  cap_sub_work_height :: c_int
  cap_num_sub_works :: c_int

type_synonym NodeOperation = nat
type_synonym ExecutionGroup = nat

datatype IExecutionModel = TiledExecutionModel | FullFrameExecutionModel

datatype event =
    MutexInit
  | ConditionInit
  | ConvertToOperations
  | ConditionEnd
  | MutexEnd
  | DeleteExecutionModel IExecutionModel
  | DeleteOperation NodeOperation
  | DeleteGroup ExecutionGroup
  | Schedule WorkPackage
  | Finish
  | MutexLock
  | MutexUnlock
  | ConditionWait
  | ConditionNotifyOne
  | WorkFunc rcti

text \<open>
  The world holds what the code shares with its surroundings:
  \<^item> \<open>test_break\<close>: the answer of the node tree's break callback at its n-th query (the
    callback is owned by the host and may change its answer at any moment) and
    \<open>break_queries\<close>, the number of queries so far;
  \<^item> \<open>queue\<close>: the packages handed to the scheduler and not yet run; \<open>pace\<close>: how many
    queued packages the worker pool gets through during the n-th call into the scheduler;
    \<open>scheduler_calls\<close>: the number of such calls so far;
  \<^item> \<open>num_sub_works_finished\<close>: the local counter of \<^verbatim>\<open>execute_work\<close> that the
    \<^verbatim>\<open>executed_fn\<close> closures capture by reference;
  \<^item> \<open>negative_size_returns\<close>: whether the constructor of \<^verbatim>\<open>Vector\<close>, a class declared
    outside the sources, returns normally when it is given a negative size;
  \<^item> \<open>trace\<close>: the calls made so far, oldest first.
\<close>

record world =
  test_break :: "nat \<Rightarrow> bool"
  break_queries :: nat
  pace :: "nat \<Rightarrow> nat"
  scheduler_calls :: nat
  queue :: "WorkPackage list"
  num_sub_works_finished :: c_int
  negative_size_returns :: bool
  trace :: "event list"

definition emit :: "event \<Rightarrow> world \<Rightarrow> world" where
  "emit e w = w\<lparr>trace := trace w @ [e]\<rparr>"

text \<open>\<^verbatim>\<open>ExecutionSystem::is_breaked\<close>, lines 186-190.\<close>

definition is_breaked :: "world \<Rightarrow> bool \<times> world" where
  "is_breaked w = (test_break w (break_queries w), w\<lparr>break_queries := Suc (break_queries w)\<rparr>)"

text \<open>
  The caller's \<^verbatim>\<open>work_func\<close> is opaque: a call of it is the event \<open>WorkFunc\<close> with the
  rectangle it receives.
\<close>

definition work_func :: "rcti \<Rightarrow> world \<Rightarrow> world" where
  "work_func split_rect w = emit (WorkFunc split_rect) w"

text \<open>The closure \<^verbatim>\<open>sub_work.execute_fn\<close>, lines 152-160.\<close>

definition execute_fn :: "WorkPackage \<Rightarrow> world \<Rightarrow> error + world" where
  "execute_fn p w =
     (case is_breaked w of
        (b, w1) \<Rightarrow>
          if b then Inr w1
          else (case c_add (cap_sub_work_y p) (cap_sub_work_height p) of
                  Inl e \<Rightarrow> Inl e
                | Inr y1 \<Rightarrow>
                    Inr (work_func
                          (BLI_rcti_init (xmin (cap_work_rect p)) (xmax (cap_work_rect p))
                             (cap_sub_work_y p) y1) w1)))"

text \<open>The closure \<^verbatim>\<open>sub_work.executed_fn\<close>, lines 161-168.\<close>

definition executed_fn :: "WorkPackage \<Rightarrow> world \<Rightarrow> error + world" where
  "executed_fn p w =
     (let w1 = emit MutexLock w in
      case c_add (num_sub_works_finished w1) 1 of
        Inl e \<Rightarrow> Inl e
      | Inr c \<Rightarrow>
          (let w2 = w1\<lparr>num_sub_works_finished := c\<rparr>;
               w3 = (if num_sub_works_finished w2 = cap_num_sub_works p
                     then emit ConditionNotifyOne w2 else w2)
           in Inr (emit MutexUnlock w3)))"

section \<open>The scheduler service\<close>

text \<open>
  \<^verbatim>\<open>WorkScheduler\<close> and the \<^verbatim>\<open>BLI_threads\<close> primitives are not among the sources; the
  definitions of this section follow the contract the spec gives them.
\<close>

text \<open>
  Modelled from the spec: a work item carries "an execute callback and an optional
  post-completion callback"; a worker of \<^verbatim>\<open>WorkScheduler\<close> runs a package by calling its
  \<^verbatim>\<open>execute_fn\<close> and then its \<^verbatim>\<open>executed_fn\<close>.
\<close>

definition run_package :: "WorkPackage \<Rightarrow> world \<Rightarrow> error + world" where
  "run_package p w = (case execute_fn p w of Inl e \<Rightarrow> Inl e | Inr w1 \<Rightarrow> executed_fn p w1)"

fun run_packages :: "WorkPackage list \<Rightarrow> world \<Rightarrow> error + world" where
  "run_packages [] w = Inr w"
| "run_packages (p # ps) w =
     (case run_package p w of Inl e \<Rightarrow> Inl e | Inr w1 \<Rightarrow> run_packages ps w1)"

text \<open>
  Modelled from the spec: the service "accepts opaque work items, executes them across a
  fixed-size worker pool". During each call into the service the pool gets through the
  first \<open>pace\<close> packages of the queue, so that every amount of progress between none and
  all is covered.
\<close>

definition workers_progress :: "world \<Rightarrow> error + world" where
  "workers_progress w =
     (let k = min (pace w (scheduler_calls w)) (length (queue w)) in
      run_packages (take k (queue w))
        (w\<lparr>scheduler_calls := Suc (scheduler_calls w), queue := drop k (queue w)\<rparr>))"

text \<open>
  Modelled from the spec: \<^verbatim>\<open>WorkScheduler::schedule\<close> is "Submit(item)": the package joins
  the queue.
\<close>

definition WorkScheduler_schedule :: "WorkPackage \<Rightarrow> world \<Rightarrow> error + world" where
  "WorkScheduler_schedule p w =
     workers_progress ((emit (Schedule p) w)\<lparr>queue := queue w @ [p]\<rparr>)"

text \<open>
  Modelled from the spec: \<^verbatim>\<open>WorkScheduler::finish\<close> is the barrier, which is "best-effort":
  it "is not guaranteed to wait for all items under every scheduling backend it
  supports".
\<close>

definition WorkScheduler_finish :: "world \<Rightarrow> error + world" where
  "WorkScheduler_finish w = workers_progress (emit Finish w)"

text \<open>
  Modelled from the spec: \<^verbatim>\<open>BLI_mutex_lock\<close> and \<^verbatim>\<open>BLI_mutex_unlock\<close> acquire and release
  the mutex of the completion barrier; each is one event.
\<close>

definition BLI_mutex_lock :: "world \<Rightarrow> world" where
  "BLI_mutex_lock w = emit MutexLock w"

definition BLI_mutex_unlock :: "world \<Rightarrow> world" where
  "BLI_mutex_unlock w = emit MutexUnlock w"

text \<open>
  Modelled from the spec: \<^verbatim>\<open>BLI_condition_wait\<close> waits "on the condition variable until"
  the counter reaches the number of packages. The waiting thread sleeps until it is
  notified: the pool runs what is queued, and a wait that nothing notifies never returns
  (\<open>BlockedForever\<close>).
\<close>

definition BLI_condition_wait :: "world \<Rightarrow> error + world" where
  "BLI_condition_wait w =
     (let w1 = emit ConditionWait w in
      case run_packages (queue w1) (w1\<lparr>queue := []\<rparr>) of
        Inl e \<Rightarrow> Inl e
      | Inr w2 \<Rightarrow>
          if ConditionNotifyOne \<in> set (drop (length (trace w1)) (trace w2))
          then Inr w2 else Inl BlockedForever)"

section \<open>The execution system\<close>

text \<open>
  The fields of \<^verbatim>\<open>ExecutionSystem\<close> that the constructor, the destructor and
  \<^verbatim>\<open>execute_work\<close> use. C++ names that end in an underscore are written without it.
  \<open>execution_model = None\<close> is the pointer that no branch of the constructor's switch
  has assigned; to delete it is undefined behaviour, the error \<open>UnassignedPointer\<close>.
\<close>

text \<open>
  Modelled from the spec: the enumeration \<^verbatim>\<open>eExecutionModel\<close> is declared outside the
  sources; its values are "Tiled, FullFrame", and \<open>Unrecognized\<close> stands for "any other
  value", the one that the \<^verbatim>\<open>default\<close> branch of the constructor's switch receives.
\<close>

datatype eExecutionModel = Tiled | FullFrame | Unrecognized nat

record CompositorContext =
  quality :: c_int
  rendering :: bool
  fast_calculation :: bool
  has_active_opencl_devices :: bool
  get_execution_model :: eExecutionModel

record ExecutionSystem =
  m_context :: CompositorContext
  m_operations :: "NodeOperation list"
  m_groups :: "ExecutionGroup list"
  execution_model :: "IExecutionModel option"
  num_work_threads :: c_int

subsection \<open>Constructor and destructor, lines 37-104\<close>

text \<open>
  What the constructor reads from its arguments and from its collaborators: the two
  quality fields and the OpenCL bit of \<^verbatim>\<open>editingtree\<close>, the flags \<^verbatim>\<open>rendering\<close> and
  \<^verbatim>\<open>fastcalculation\<close>, the answers of \<^verbatim>\<open>WorkScheduler::has_gpu_devices\<close> and
  \<^verbatim>\<open>WorkScheduler::get_num_cpu_threads\<close>, the operations and groups that
  \<^verbatim>\<open>NodeOperationBuilder::convertToOperations\<close> hands over through
  \<^verbatim>\<open>set_operations\<close>, and the value of \<^verbatim>\<open>m_context.get_execution_model()\<close>. Pointers
  that the constructor only stores (scene, render data, view and display settings, view
  name, preview hash) are left out.
\<close>

record host =
  render_quality :: c_int
  edit_quality :: c_int
  ntree_com_opencl :: bool
  arg_rendering :: bool
  arg_fastcalculation :: bool
  has_gpu_devices :: bool
  get_num_cpu_threads :: c_int
  built_operations :: "NodeOperation list"
  built_groups :: "ExecutionGroup list"
  selected_execution_model :: eExecutionModel

text \<open>\<^verbatim>\<open>ExecutionSystem::set_operations\<close>, lines 106-111.\<close>

definition set_operations ::
  "NodeOperation list \<Rightarrow> ExecutionGroup list \<Rightarrow> ExecutionSystem \<Rightarrow> ExecutionSystem"
where
  "set_operations operations groups sys = sys\<lparr>m_operations := operations, m_groups := groups\<rparr>"

text \<open>
  The constructor, lines 37-86. Before the switch no execution model is assigned and the
  worker count is not yet recorded (written 0 here).
\<close>

definition ExecutionSystem_construct ::
  "bool \<Rightarrow> host \<Rightarrow> world \<Rightarrow> error + (ExecutionSystem \<times> world)"
where
  "ExecutionSystem_construct asserts h w =
     (let ctx = \<lparr>quality = (if arg_rendering h then render_quality h else edit_quality h),
                 rendering = arg_rendering h,
                 fast_calculation = arg_fastcalculation h,
                 has_active_opencl_devices = (has_gpu_devices h \<and> ntree_com_opencl h),
                 get_execution_model = selected_execution_model h\<rparr>;
          w1 = emit ConditionInit (emit MutexInit w);
          w2 = emit ConvertToOperations w1;
          sys = set_operations (built_operations h) (built_groups h)
                  \<lparr>m_context = ctx, m_operations = [], m_groups = [],
                   execution_model = None, num_work_threads = 0\<rparr>
      in case (case get_execution_model (m_context sys) of
                 Tiled \<Rightarrow> Inr (sys\<lparr>execution_model := Some TiledExecutionModel\<rparr>)
               | FullFrame \<Rightarrow> Inr (sys\<lparr>execution_model := Some FullFrameExecutionModel\<rparr>)
               | Unrecognized v \<Rightarrow>
                   (case BLI_assert asserts False ''Non implemented execution model'' of
                      Inl e \<Rightarrow> Inl e
                    | Inr _ \<Rightarrow> Inr sys)) of
           Inl e \<Rightarrow> Inl e
         | Inr sys1 \<Rightarrow> Inr (sys1\<lparr>num_work_threads := get_num_cpu_threads h\<rparr>, w2))"

text \<open>
  The destructor, lines 88-104. \<^verbatim>\<open>delete execution_model_\<close> of line 93 stops the run
  when the pointer was never assigned.
\<close>

definition ExecutionSystem_destruct ::
  "ExecutionSystem \<Rightarrow> world \<Rightarrow> error + (ExecutionSystem \<times> world)"
where
  "ExecutionSystem_destruct sys w =
     (let w1 = emit ConditionEnd w;
          w2 = emit MutexEnd w1
      in case execution_model sys of
           None \<Rightarrow> Inl UnassignedPointer
         | Some model \<Rightarrow>
             (let w3 = emit (DeleteExecutionModel model) w2;
                  w4 = foldl (\<lambda>v operation. emit (DeleteOperation operation) v) w3
                         (m_operations sys);
                  sys1 = sys\<lparr>m_operations := []\<rparr>;
                  w5 = foldl (\<lambda>v group. emit (DeleteGroup group) v) w4 (m_groups sys1);
                  sys2 = sys1\<lparr>m_groups := []\<rparr>
              in Inr (sys2, w5)))"

subsection \<open>\<^verbatim>\<open>execute_work\<close>, lines 125-184\<close>

text \<open>The loop of lines 141-171; it returns the final \<^verbatim>\<open>sub_work_y\<close>.\<close>

function submit_loop ::
  "rcti \<Rightarrow> c_int \<Rightarrow> c_int \<Rightarrow> c_int \<Rightarrow> c_int \<Rightarrow> c_int \<Rightarrow> world \<Rightarrow> error + (c_int \<times> world)"
where
  "submit_loop work_rect num_sub_works split_height i remaining_height sub_work_y w =
     (if sint i < sint num_sub_works then
        (case (if 0 < sint remaining_height
               then (case c_add split_height 1 of
                       Inl e \<Rightarrow> Inl e
                     | Inr h \<Rightarrow>
                         (case c_sub remaining_height 1 of
                            Inl e \<Rightarrow> Inl e
                          | Inr r \<Rightarrow> Inr (h, r)))
               else Inr (split_height, remaining_height)) of
           Inl e \<Rightarrow> Inl e
         | Inr (sub_work_height, remaining_height') \<Rightarrow>
             (case WorkScheduler_schedule
                     \<lparr>type = CustomFunction, cap_work_rect = work_rect,
                      cap_sub_work_y = sub_work_y, cap_sub_work_height = sub_work_height,
                      cap_num_sub_works = num_sub_works\<rparr> w of
                Inl e \<Rightarrow> Inl e
              | Inr w1 \<Rightarrow>
                  (case c_add sub_work_y sub_work_height of
                     Inl e \<Rightarrow> Inl e
                   | Inr sub_work_y' \<Rightarrow>
                       (case c_add i 1 of
                          Inl e \<Rightarrow> Inl e
                        | Inr i' \<Rightarrow>
                            submit_loop work_rect num_sub_works split_height i'
                              remaining_height' sub_work_y' w1))))
      else Inr (sub_work_y, w))"
  by pat_completeness auto
termination
  by (relation "measure (\<lambda>(work_rect, num_sub_works, split_height, i, rest).
         nat (sint num_sub_works - sint i))")
     (auto simp: c_add_def c_int_of_def sint_word_ariths signed_take_bit_int_eq_self
        split: if_splits)

declare submit_loop.simps [simp del]

text \<open>
  Modelled from the spec: the class \<^verbatim>\<open>Vector\<close> of line 138,
  \<^verbatim>\<open>Vector<WorkPackage> sub_works(num_sub_works)\<close>, is declared outside the sources.
  \<^verbatim>\<open>execute_work\<close> is to "build a Work Item" for each sub-region and to "submit all K
  Work Items", so for a size that is not negative the constructor provides that many
  packages and returns. What it does with a negative size is a parameter, the field
  \<open>negative_size_returns\<close> of the world: it either returns normally or stops the run with
  \<open>NegativeSize\<close>.
\<close>

definition Vector_construct :: "world \<Rightarrow> c_int \<Rightarrow> error + unit" where
  "Vector_construct w n =
     (if 0 \<le> sint n \<or> negative_size_returns w then Inr () else Inl NegativeSize)"

text \<open>
  Lines 133-171: the split, the vector and the submission loop. The vector only stores the
  packages; they are observed as the \<open>Schedule\<close> events.
\<close>

definition split_and_submit ::
  "ExecutionSystem \<Rightarrow> rcti \<Rightarrow> world \<Rightarrow> error + (c_int \<times> c_int \<times> world)"
where
  "split_and_submit sys work_rect w =
     (case BLI_rcti_size_y work_rect of
        Inl e \<Rightarrow> Inl e
      | Inr work_height \<Rightarrow>
          (let num_sub_works = MIN2 (num_work_threads sys) work_height in
           case (if sint num_sub_works = 0 then Inr 0 else c_div work_height num_sub_works) of
             Inl e \<Rightarrow> Inl e
           | Inr split_height \<Rightarrow>
               (case c_mul split_height num_sub_works of
                  Inl e \<Rightarrow> Inl e
                | Inr m \<Rightarrow>
                    (case c_sub work_height m of
                       Inl e \<Rightarrow> Inl e
                     | Inr remaining_height \<Rightarrow>
                         (case Vector_construct w num_sub_works of
                            Inl e \<Rightarrow> Inl e
                          | Inr _ \<Rightarrow>
                              (case submit_loop work_rect num_sub_works split_height 0
                                      remaining_height (ymin work_rect)
                                      (w\<lparr>num_sub_works_finished := 0\<rparr>) of
                                 Inl e \<Rightarrow> Inl e
                               | Inr (sub_work_y, w1) \<Rightarrow>
                                   Inr (num_sub_works, sub_work_y, w1)))))))"

definition execute_work :: "bool \<Rightarrow> ExecutionSystem \<Rightarrow> rcti \<Rightarrow> world \<Rightarrow> error + world" where
  "execute_work asserts sys work_rect w =
     (case is_breaked w of
        (b, w0) \<Rightarrow>
          if b then Inr w0
          else (case split_and_submit sys work_rect w0 of
                  Inl e \<Rightarrow> Inl e
                | Inr (num_sub_works, sub_work_y, w1) \<Rightarrow>
                    (case BLI_assert asserts (sub_work_y = ymax work_rect)
                            ''sub_work_y == work_rect.ymax'' of
                       Inl e \<Rightarrow> Inl e
                     | Inr _ \<Rightarrow>
                         (case WorkScheduler_finish w1 of
                            Inl e \<Rightarrow> Inl e
                          | Inr w2 \<Rightarrow>
                              (let w3 = BLI_mutex_lock w2 in
                               case (if sint (num_sub_works_finished w3) < sint num_sub_works
                                     then BLI_condition_wait w3 else Inr w3) of
                                 Inl e \<Rightarrow> Inl e
                               | Inr w4 \<Rightarrow> Inr (BLI_mutex_unlock w4))))))"

section \<open>Observations and invariants\<close>

text \<open>
  What a run leaves in the trace: the packages handed to \<^verbatim>\<open>WorkScheduler::schedule\<close>, in
  the order of submission, the rectangles that \<^verbatim>\<open>work_func\<close> was called with, and the
  events that one call has added to the trace.
\<close>

definition scheduled :: "event list \<Rightarrow> WorkPackage list" where
  "scheduled es = concat (map (\<lambda>e. case e of Schedule p \<Rightarrow> [p] | _ \<Rightarrow> []) es)"

definition work_funcs :: "event list \<Rightarrow> rcti list" where
  "work_funcs es = concat (map (\<lambda>e. case e of WorkFunc r \<Rightarrow> [r] | _ \<Rightarrow> []) es)"

definition events_since :: "world \<Rightarrow> world \<Rightarrow> event list" where
  "events_since w w' = drop (length (trace w)) (trace w')"

text \<open>
  The split in closed form, as the spec states it: with \<open>n\<close> sub-regions, base height
  \<open>b\<close> and remainder \<open>r\<close>, sub-region \<open>i\<close> starts \<open>i * b + min i r\<close> rows above the
  lower bound of the region and is \<open>b\<close> rows high, one more for the first \<open>r\<close> of them.
  \<open>num_sub_works_of\<close> is the number of sub-regions, \<open>sub_works\<close> the packages the loop
  is shown to submit.
\<close>

definition sub_work_at :: "rcti \<Rightarrow> c_int \<Rightarrow> int \<Rightarrow> int \<Rightarrow> nat \<Rightarrow> WorkPackage" where
  "sub_work_at work_rect num_sub_works b r i =
     \<lparr>type = CustomFunction, cap_work_rect = work_rect,
      cap_sub_work_y = word_of_int (sint (ymin work_rect) + int i * b + min (int i) r),
      cap_sub_work_height = word_of_int (b + (if int i < r then 1 else 0)),
      cap_num_sub_works = num_sub_works\<rparr>"

definition num_sub_works_of :: "ExecutionSystem \<Rightarrow> rcti \<Rightarrow> int" where
  "num_sub_works_of sys work_rect =
     min (sint (num_work_threads sys)) (sint (ymax work_rect) - sint (ymin work_rect))"

definition sub_works :: "ExecutionSystem \<Rightarrow> rcti \<Rightarrow> WorkPackage list" where
  "sub_works sys work_rect =
     (let H = sint (ymax work_rect) - sint (ymin work_rect);
          n = min (sint (num_work_threads sys)) H
      in map (sub_work_at work_rect (word_of_int n) (H div n) (H mod n)) [0..<nat n])"

text \<open>Submitting a list of packages one after the other: what the loop amounts to.\<close>

fun submit_all :: "WorkPackage list \<Rightarrow> world \<Rightarrow> error + world" where
  "submit_all [] w = Inr w"
| "submit_all (p # ps) w =
     (case WorkScheduler_schedule p w of Inl e \<Rightarrow> Inl e | Inr w1 \<Rightarrow> submit_all ps w1)"

text \<open>
  A sequence of rectangles, given by their row ranges, is stacked from \<open>lo\<close> to \<open>hi\<close>
  when the first starts at \<open>lo\<close>, each starts where the one before it ends, none is
  empty, and the last ends at \<open>hi\<close>.
\<close>

fun stacked :: "int \<Rightarrow> (int \<times> int) list \<Rightarrow> int \<Rightarrow> bool" where
  "stacked lo [] hi = (lo = hi)"
| "stacked lo ((a, b) # rs) hi = (a = lo \<and> a < b \<and> stacked b rs hi)"

definition rows :: "rcti \<Rightarrow> int \<times> int" where
  "rows rect = (sint (ymin rect), sint (ymax rect))"

text \<open>The rectangle that the \<^verbatim>\<open>execute_fn\<close> of a package builds at lines 156-158.\<close>

definition split_rect :: "WorkPackage \<Rightarrow> rcti" where
  "split_rect p =
     BLI_rcti_init (xmin (cap_work_rect p)) (xmax (cap_work_rect p)) (cap_sub_work_y p)
       (cap_sub_work_y p + cap_sub_work_height p)"

text \<open>
  Invariants of the proofs. A package is good for a call when it refers to the call's
  \<^verbatim>\<open>num_sub_works\<close> and its upper bound fits an \<^verbatim>\<open>int\<close>. \<open>ran nw m w w'\<close>: the pool
  has run \<open>m\<close> packages between \<open>w\<close> and \<open>w'\<close>. \<open>cycle_inv s nw ps w\<close>: since the
  start \<open>s\<close> of the cycle the packages \<open>ps\<close> have been submitted, and the counter counts
  those of them that have left the queue.
\<close>

definition good_package :: "c_int \<Rightarrow> WorkPackage \<Rightarrow> bool" where
  "good_package nw p \<longleftrightarrow>
     cap_num_sub_works p = nw \<and>
     - 2147483648 \<le> sint (cap_sub_work_y p) + sint (cap_sub_work_height p) \<and>
     sint (cap_sub_work_y p) + sint (cap_sub_work_height p) \<le> 2147483647"

definition ran :: "c_int \<Rightarrow> nat \<Rightarrow> world \<Rightarrow> world \<Rightarrow> bool" where
  "ran nw m w w' \<longleftrightarrow>
     test_break w' = test_break w \<and> break_queries w' = break_queries w + m \<and>
     queue w' = queue w \<and> pace w' = pace w \<and> scheduler_calls w' = scheduler_calls w \<and>
     sint (num_sub_works_finished w') = sint (num_sub_works_finished w) + int m \<and>
     (\<exists>evs. trace w' = trace w @ evs \<and> scheduled evs = [] \<and>
        ((\<forall>j\<ge>break_queries w. test_break w j) \<longrightarrow> work_funcs evs = []) \<and>
        (0 < m \<and> sint (num_sub_works_finished w') = sint nw \<longrightarrow> ConditionNotifyOne \<in> set evs))"

definition cycle_inv :: "world \<Rightarrow> c_int \<Rightarrow> WorkPackage list \<Rightarrow> world \<Rightarrow> bool" where
  "cycle_inv s nw ps w \<longleftrightarrow>
     test_break w = test_break s \<and> break_queries s \<le> break_queries w \<and>
     (\<forall>p\<in>set (queue w). good_package nw p) \<and>
     0 \<le> sint (num_sub_works_finished w) \<and>
     sint (num_sub_works_finished w) + int (length (queue w)) = int (length ps) \<and>
     (\<exists>evs. trace w = trace s @ evs \<and> scheduled evs = ps \<and>
        ((\<forall>j\<ge>break_queries s. test_break s j) \<longrightarrow> work_funcs evs = []))"

section \<open>Example inputs\<close>

text \<open>Concrete worlds, systems and rectangles at which the theorems are instantiated.\<close>

definition idle_world :: world where
  "idle_world =
     \<lparr>test_break = (\<lambda>n. False), break_queries = 0, pace = (\<lambda>n. 1), scheduler_calls = 0,
      queue = [], num_sub_works_finished = 0, negative_size_returns = True, trace = []\<rparr>"

definition cancelled_world :: world where
  "cancelled_world =
     \<lparr>test_break = (\<lambda>n. True), break_queries = 0, pace = (\<lambda>n. 1), scheduler_calls = 0,
      queue = [], num_sub_works_finished = 0, negative_size_returns = True, trace = []\<rparr>"

definition strict_vector_world :: world where
  "strict_vector_world =
     \<lparr>test_break = (\<lambda>n. False), break_queries = 0, pace = (\<lambda>n. 1), scheduler_calls = 0,
      queue = [], num_sub_works_finished = 0, negative_size_returns = False, trace = []\<rparr>"

definition four_thread_system :: ExecutionSystem where
  "four_thread_system =
     \<lparr>m_context = \<lparr>quality = 0, rendering = False, fast_calculation = False,
                   has_active_opencl_devices = False, get_execution_model = Tiled\<rparr>,
      m_operations = [1, 2], m_groups = [3],
      execution_model = Some TiledExecutionModel, num_work_threads = 4\<rparr>"

definition unrecognized_host :: host where
  "unrecognized_host =
     \<lparr>render_quality = 0, edit_quality = 1, ntree_com_opencl = False, arg_rendering = True,
      arg_fastcalculation = False, has_gpu_devices = False, get_num_cpu_threads = 4,
      built_operations = [1, 2], built_groups = [3],
      selected_execution_model = Unrecognized 2\<rparr>"

definition ten_rows :: rcti where
  "ten_rows = \<lparr>xmin = 0, xmax = 5, ymin = 0, ymax = 10\<rparr>"

section \<open>Events and traces\<close>

lemma trace_emit: "trace (emit e w) = trace w @ [e]"
  by (simp add: emit_def)

lemma trace_foldl_emit: "trace (foldl (\<lambda>v x. emit (f x) v) w xs) = trace w @ map f xs"
  by (induction xs arbitrary: w) (simp_all add: emit_def)

section \<open>Arithmetic of the split\<close>

lemma sint_c_int_ge: "- 2147483648 \<le> sint (x::c_int)"
  using sint_ge[of x] by simp

lemma sint_c_int_le: "sint (x::c_int) \<le> 2147483647"
  using sint_lt[of x] by simp

lemma sint_word_of_int_c:
  "- 2147483648 \<le> v \<Longrightarrow> v \<le> 2147483647 \<Longrightarrow> sint (word_of_int v :: c_int) = v"
  by (simp add: sint_sbintrunc' signed_take_bit_int_eq_self)

lemma word_of_int_sint_c: "word_of_int (sint x) = (x::c_int)"
  by simp

lemma sint_inj_c: "sint (a::c_int) = sint b \<Longrightarrow> a = b"
  by (metis word_of_int_sint_c)

lemma c_int_of_ok:
  "- 2147483648 \<le> v \<Longrightarrow> v \<le> 2147483647 \<Longrightarrow> c_int_of v = Inr (word_of_int v)"
  by (simp add: c_int_of_def)

lemma c_int_of_Inr: "c_int_of v = Inr c \<Longrightarrow> sint c = v"
  by (auto simp: c_int_of_def sint_word_of_int_c split: if_splits)

lemma offset_mono:
  fixes b r i j :: int
  assumes "0 \<le> b" "i \<le> j"
  shows "i * b + min i r \<le> j * b + min j r"
proof -
  have "i * b \<le> j * b" using assms by (simp add: mult_right_mono)
  moreover have "min i r \<le> min j r" using assms by simp
  ultimately show ?thesis by linarith
qed

lemma loop_unroll:
  fixes n H :: int
  assumes n: "0 < n" "n \<le> H" and H: "H = sint (ymax rect) - sint (ymin rect)"
    and Hmax: "H \<le> 2147483647"
    and nw: "sint nw = n" and sp: "sint split = H div n"
  shows "int i \<le> n \<Longrightarrow> sint iw = int i \<Longrightarrow> sint rem = max 0 (H mod n - int i) \<Longrightarrow>
     sint y = sint (ymin rect) + int i * (H div n) + min (int i) (H mod n) \<Longrightarrow>
     submit_loop rect nw split iw rem y w =
       (case submit_all (map (sub_work_at rect nw (H div n) (H mod n)) [i..<nat n]) w of
          Inl e \<Rightarrow> Inl e | Inr w' \<Rightarrow> Inr (ymax rect, w'))"
proof (induction "nat n - i" arbitrary: i iw rem y w)
  case 0
  then have i: "int i = n" using n by linarith
  have "H div n * n + H mod n = H" by simp
  then have "sint y = sint (ymax rect)"
    using 0 i n H by (simp add: mult.commute)
  then have "y = ymax rect" by (rule sint_inj_c)
  moreover have "[i..<nat n] = []" using i by simp
  ultimately show ?case
    using 0 i nw by (simp add: submit_loop.simps)
next
  case (Suc k)
  define b where "b = H div n"
  define r where "r = H mod n"
  have i: "int i < n" using Suc.hyps(2) by linarith
  have r: "0 \<le> r" "r < n" using n by (simp_all add: r_def)
  have b0: "0 \<le> b" using n by (simp add: b_def pos_imp_zdiv_nonneg_iff)
  have Hbr: "b * n + r = H" by (simp add: b_def r_def)
  define h where "h = b + (if int i < r then 1 else 0)"
  have bn: "b \<le> b * n" using b0 n by (simp add: mult_le_cancel_left1)
  have h_le: "h \<le> H" "0 \<le> h" using bn Hbr r b0 by (auto simp: h_def)
  have ynext: "sint y + h = sint (ymin rect) + (int i + 1) * b + min (int i + 1) r"
    using Suc.prems(4) by (auto simp: h_def b_def r_def algebra_simps min_def)
  have "(int i + 1) * b + min (int i + 1) r \<le> n * b + min n r"
    using offset_mono[OF b0, of "int i + 1" n r] i by simp
  then have ynext_le: "sint y + h \<le> sint (ymax rect)"
    using ynext Hbr r H by (simp add: mult.commute min_def split: if_splits)
  have "0 * b + min 0 r \<le> (int i + 1) * b + min (int i + 1) r"
    using offset_mono[OF b0, of 0 "int i + 1" r] by simp
  then have ynext_ge: "sint (ymin rect) \<le> sint y + h"
    using ynext r by (simp add: min_def split: if_splits)
  have sp': "sint split = b" using sp by (simp add: b_def)
  have rem: "sint rem = max 0 (r - int i)" using Suc.prems(3) by (simp add: r_def)
  obtain hw rem' where step1:
    "(if 0 < sint rem
      then (case c_add split 1 of Inl e \<Rightarrow> Inl e
            | Inr h \<Rightarrow> (case c_sub rem 1 of Inl e \<Rightarrow> Inl e | Inr r \<Rightarrow> Inr (h, r)))
      else Inr (split, rem)) = Inr (hw, rem')"
    and hw: "hw = word_of_int h" and rem': "sint rem' = max 0 (r - (int i + 1))"
  proof (cases "int i < r")
    case True
    have a: "c_add split 1 = Inr (word_of_int (b + 1))"
      using sp' h_le True Hmax by (simp add: c_add_def c_int_of_ok h_def)
    have c: "c_sub rem 1 = Inr (word_of_int (r - int i - 1))"
      using rem True r n nw sint_c_int_le[of nw] by (simp add: c_sub_def c_int_of_ok)
    have "sint (word_of_int (r - int i - 1) :: c_int) = r - int i - 1"
      by (rule sint_word_of_int_c) (use True r n nw sint_c_int_le[of nw] in linarith)+
    then show ?thesis
      using that[of "word_of_int (b + 1)" "word_of_int (r - int i - 1)"] a c True rem
      by (simp add: h_def)
  next
    case False
    have "split = word_of_int b" using sp' word_of_int_sint_c[of split] by simp
    then show ?thesis
      using that[of split rem] False rem by (simp add: h_def)
  qed
  have hws: "sint hw = h"
    using hw h_le Hmax by (simp add: sint_word_of_int_c)
  have pkg: "\<lparr>type = CustomFunction, cap_work_rect = rect, cap_sub_work_y = y,
      cap_sub_work_height = hw, cap_num_sub_works = nw\<rparr> = sub_work_at rect nw b r i"
    using hw Suc.prems(4) word_of_int_sint_c[of y]
    by (simp add: sub_work_at_def h_def b_def r_def)
  have yr: "- 2147483648 \<le> sint y + h" "sint y + h \<le> 2147483647"
    using ynext_le ynext_ge sint_c_int_ge[of "ymin rect"] sint_c_int_le[of "ymax rect"]
    by linarith+
  have yadd: "c_add y hw = Inr (word_of_int (sint y + h))"
    using yr hws by (simp add: c_add_def c_int_of_ok)
  have "sint (word_of_int (sint y + h) :: c_int) = sint y + h"
    by (rule sint_word_of_int_c) (use yr in linarith)+
  then have ys: "sint (word_of_int (sint y + h) :: c_int) =
      sint (ymin rect) + int (Suc i) * (H div n) + min (int (Suc i)) (H mod n)"
    using ynext by (simp only: b_def r_def) (simp add: add.commute)
  have ir: "int i + 1 \<le> 2147483647" using i nw sint_c_int_le[of nw] by linarith
  have iadd: "c_add iw 1 = Inr (word_of_int (int i + 1))"
    using Suc.prems(2) ir by (simp add: c_add_def c_int_of_ok)
  have "sint (word_of_int (int i + 1) :: c_int) = int i + 1"
    by (rule sint_word_of_int_c) (use ir in linarith)+
  then have isuc: "sint (word_of_int (int i + 1) :: c_int) = int (Suc i)"
    by (simp only: of_nat_Suc add.commute)
  have rs: "sint rem' = max 0 (H mod n - int (Suc i))"
    using rem' by (simp add: r_def)
  have k: "k = nat n - Suc i" using Suc.hyps(2) by simp
  have le: "int (Suc i) \<le> n" using i by simp
  note IH = Suc.hyps(1)[OF k le isuc rs ys]
  have upt: "[i..<nat n] = i # [Suc i..<nat n]"
    using i by (simp add: upt_conv_Cons)
  have cond: "sint iw < sint nw" using Suc.prems(2) nw i by simp
  have lhs: "submit_loop rect nw split iw rem y w =
      (case WorkScheduler_schedule (sub_work_at rect nw b r i) w of
         Inl e \<Rightarrow> Inl e
       | Inr w1 \<Rightarrow> submit_loop rect nw split (word_of_int (int i + 1)) rem'
                    (word_of_int (sint y + h)) w1)"
    by (subst submit_loop.simps)
       (simp only: cond if_True step1 sum.case prod.case pkg yadd iadd)
  show ?case
  proof (cases "WorkScheduler_schedule (sub_work_at rect nw b r i) w")
    case (Inl e)
    then show ?thesis
      unfolding lhs upt b_def[symmetric] r_def[symmetric]
      by (simp only: list.map submit_all.simps sum.case)
  next
    case (Inr w1)
    then show ?thesis
      unfolding lhs upt b_def[symmetric] r_def[symmetric]
      by (simp only: list.map submit_all.simps sum.case IH[folded b_def r_def])
  qed
qed

lemma Vector_construct_nonneg:
  assumes "0 \<le> sint n"
  shows "Vector_construct w n = Inr ()"
  using assms by (simp add: Vector_construct_def)

lemma Vector_construct_returns:
  assumes "negative_size_returns w"
  shows "Vector_construct w n = Inr ()"
  using assms by (simp add: Vector_construct_def)

lemma Vector_construct_stops:
  assumes "sint n < 0" "\<not> negative_size_returns w"
  shows "Vector_construct w n = Inl NegativeSize"
  using assms by (simp add: Vector_construct_def)

lemma Vector_construct_break_queries [simp]:
  "Vector_construct (w\<lparr>break_queries := b\<rparr>) n = Vector_construct w n"
  by (simp add: Vector_construct_def)

lemma split_and_submit_eq:
  assumes y: "sint (ymin rect) \<le> sint (ymax rect)"
    and Hmax: "sint (ymax rect) - sint (ymin rect) \<le> 2147483647"
    and K: "1 \<le> sint (num_work_threads sys)"
  shows "split_and_submit sys rect w =
     (case submit_all (sub_works sys rect) (w\<lparr>num_sub_works_finished := 0\<rparr>) of
        Inl e \<Rightarrow> Inl e
      | Inr w' \<Rightarrow>
          Inr (word_of_int (min (sint (num_work_threads sys))
                 (sint (ymax rect) - sint (ymin rect))), ymax rect, w'))"
proof -
  define H where "H = sint (ymax rect) - sint (ymin rect)"
  define n where "n = min (sint (num_work_threads sys)) H"
  define Hw :: c_int where "Hw = word_of_int H"
  define nw :: c_int where "nw = word_of_int n"
  have H0: "0 \<le> H" using y by (simp add: H_def)
  have size: "BLI_rcti_size_y rect = Inr Hw"
    using H0 Hmax by (simp add: BLI_rcti_size_y_def c_sub_def c_int_of_ok H_def Hw_def)
  have Hs: "sint Hw = H"
    unfolding Hw_def by (rule sint_word_of_int_c) (use H0 Hmax H_def in linarith)+
  have n0: "0 \<le> n" "n \<le> H" using H0 K by (simp_all add: n_def)
  have ns: "sint nw = n"
    unfolding nw_def by (rule sint_word_of_int_c) (use n0 Hmax H_def in linarith)+
  have min2: "MIN2 (num_work_threads sys) Hw = nw"
    by (rule sint_inj_c) (simp add: MIN2_def Hs ns n_def min_def)
  show ?thesis
  proof (cases "n = 0")
    case True
    then have "H = 0" using K by (simp add: n_def min_def split: if_splits)
    then have "ymin rect = ymax rect"
      by (intro sint_inj_c) (simp add: H_def)
    moreover have "nw = 0" using True by (simp add: nw_def)
    moreover have "sub_works sys rect = []"
      using True by (simp add: sub_works_def n_def H_def Let_def)
    ultimately show ?thesis
      using True K
      by (simp add: split_and_submit_def size min2 c_mul_def c_sub_def c_int_of_def
          Vector_construct_def submit_loop.simps Hs \<open>H = 0\<close> n_def[symmetric] H_def[symmetric] nw_def)
  next
    case False
    then have npos: "0 < n" using n0 by simp
    define b where "b = H div n"
    define r where "r = H mod n"
    have b0: "0 \<le> b" using npos H0 by (simp add: b_def pos_imp_zdiv_nonneg_iff)
    have Hbr: "b * n + r = H" by (simp add: b_def r_def)
    have r0: "0 \<le> r" "r < n" using npos by (simp_all add: r_def)
    have "b \<le> b * n" using b0 npos by (simp add: mult_le_cancel_left1)
    then have bH: "b \<le> H" using Hbr r0 by linarith
    have "sgn H * sgn n * (\<bar>H\<bar> div \<bar>n\<bar>) = b"
      using H0 npos by (cases "H = 0") (simp_all add: b_def)
    moreover have "c_int_of b = Inr (word_of_int b)"
      by (rule c_int_of_ok) (use b0 bH Hmax H_def in linarith)+
    ultimately have div: "c_div Hw nw = Inr (word_of_int b)"
      using npos by (simp only: c_div_def Hs ns) simp
    have bs: "sint (word_of_int b :: c_int) = b"
      by (rule sint_word_of_int_c) (use b0 bH Hmax H_def in linarith)+
    have bn: "0 \<le> b * n" "b * n \<le> H" using b0 npos Hbr r0 by simp_all
    have mul: "c_mul (word_of_int b) nw = Inr (word_of_int (b * n))"
      using bn Hmax by (simp only: c_mul_def bs ns) (simp add: c_int_of_ok H_def)
    have bns: "sint (word_of_int (b * n) :: c_int) = b * n"
      by (rule sint_word_of_int_c) (use bn Hmax H_def in linarith)+
    have "H - b * n = r" using Hbr by simp
    then have sub: "c_sub Hw (word_of_int (b * n)) = Inr (word_of_int r)"
      using r0 n0 Hmax by (simp only: c_sub_def Hs bns) (simp add: c_int_of_ok H_def)
    have rs: "sint (word_of_int r :: c_int) = max 0 (H mod n - int 0)"
      using r0 n0 Hmax sint_word_of_int_c[of r] by (simp add: r_def H_def)
    have ys: "sint (ymin rect) = sint (ymin rect) + int 0 * (H div n) + min (int 0) (H mod n)"
      using r0 by (simp add: r_def)
    have z: "sint (0 :: c_int) = int 0" by simp
    have le: "int 0 \<le> n" using n0 by simp
    note loop = loop_unroll[OF npos n0(2) H_def Hmax[folded H_def] ns bs[unfolded b_def] le z rs ys]
    have nz: "sint nw \<noteq> 0" using ns False by simp
    have sw: "sub_works sys rect = map (sub_work_at rect nw (H div n) (H mod n)) [0..<nat n]"
      by (simp add: sub_works_def Let_def H_def n_def nw_def)
    have vec: "Vector_construct w nw = Inr ()"
      using n0 ns by (simp add: Vector_construct_nonneg)
    have 1: "split_and_submit sys rect w =
        (case submit_loop rect nw (word_of_int b) 0 (word_of_int r) (ymin rect)
                (w\<lparr>num_sub_works_finished := 0\<rparr>) of
           Inl e \<Rightarrow> Inl e
         | Inr (sub_work_y, w1) \<Rightarrow> Inr (nw, sub_work_y, w1))"
      by (simp only: split_and_submit_def size sum.case Let_def min2 nz if_False div mul sub
          vec)
    show ?thesis
      unfolding 1 sw loop[folded b_def r_def, unfolded of_nat_0] b_def[symmetric] r_def[symmetric]
        n_def[symmetric] H_def[symmetric] nw_def[symmetric]
      by (cases "submit_all (map (sub_work_at rect nw b r) [0..<nat n])
                   (w\<lparr>num_sub_works_finished := 0\<rparr>)") simp_all
  qed
qed

section \<open>Worker runs and the invariant of a cycle\<close>

lemma scheduled_append [simp]: "scheduled (xs @ ys) = scheduled xs @ scheduled ys"
  by (simp add: scheduled_def)

lemma work_funcs_append [simp]: "work_funcs (xs @ ys) = work_funcs xs @ work_funcs ys"
  by (simp add: work_funcs_def)

lemma ran_refl: "ran nw 0 w w"
  by (simp add: ran_def scheduled_def work_funcs_def)

lemma ran_trans:
  assumes "ran nw m w w1" "ran nw k w1 w2"
  shows "ran nw (m + k) w w2"
proof -
  obtain e1 where e1: "trace w1 = trace w @ e1" "scheduled e1 = []"
      "(\<forall>j\<ge>break_queries w. test_break w j) \<longrightarrow> work_funcs e1 = []"
      "0 < m \<and> sint (num_sub_works_finished w1) = sint nw \<longrightarrow> ConditionNotifyOne \<in> set e1"
    using assms(1) unfolding ran_def by blast
  obtain e2 where e2: "trace w2 = trace w1 @ e2" "scheduled e2 = []"
      "(\<forall>j\<ge>break_queries w1. test_break w1 j) \<longrightarrow> work_funcs e2 = []"
      "0 < k \<and> sint (num_sub_works_finished w2) = sint nw \<longrightarrow> ConditionNotifyOne \<in> set e2"
    using assms(2) unfolding ran_def by blast
  have f1: "test_break w1 = test_break w" "break_queries w1 = break_queries w + m"
      "sint (num_sub_works_finished w1) = sint (num_sub_works_finished w) + int m"
    using assms(1) by (simp_all add: ran_def)
  have f2: "sint (num_sub_works_finished w2) = sint (num_sub_works_finished w1) + int k"
    using assms(2) by (simp add: ran_def)
  have a: "trace w2 = trace w @ (e1 @ e2)" using e1(1) e2(1) by simp
  have b: "scheduled (e1 @ e2) = []" using e1(2) e2(2) by simp
  have c: "(\<forall>j\<ge>break_queries w. test_break w j) \<longrightarrow> work_funcs (e1 @ e2) = []"
    using e1(3) e2(3) f1 by simp
  have d: "0 < m + k \<and> sint (num_sub_works_finished w2) = sint nw
      \<longrightarrow> ConditionNotifyOne \<in> set (e1 @ e2)"
  proof (cases "k = 0")
    case True
    then show ?thesis using e1(4) f2 by auto
  next
    case False
    then show ?thesis using e2(4) by auto
  qed
  show ?thesis
    unfolding ran_def
    using assms a b c d by (auto simp: ran_def)
qed

lemma c_add_ok:
  assumes "- 2147483648 \<le> sint a + sint b" "sint a + sint b \<le> 2147483647"
  shows "c_add a b = Inr (a + b)"
  using assms by (simp add: c_add_def c_int_of_def)

lemma sint_add_ok:
  assumes "- 2147483648 \<le> sint (a::c_int) + sint b" "sint a + sint b \<le> 2147483647"
  shows "sint (a + b) = sint a + sint b"
  using assms by (simp add: sint_word_ariths signed_take_bit_int_eq_self)

lemma execute_fn_good:
  assumes "good_package nw p"
  shows "execute_fn p w =
     Inr (if test_break w (break_queries w)
          then w\<lparr>break_queries := Suc (break_queries w)\<rparr>
          else emit (WorkFunc \<lparr>xmin = xmin (cap_work_rect p), xmax = xmax (cap_work_rect p),
                               ymin = cap_sub_work_y p,
                               ymax = cap_sub_work_y p + cap_sub_work_height p\<rparr>)
                 (w\<lparr>break_queries := Suc (break_queries w)\<rparr>))"
proof -
  have "c_add (cap_sub_work_y p) (cap_sub_work_height p) =
      Inr (cap_sub_work_y p + cap_sub_work_height p)"
    using assms by (intro c_add_ok) (simp_all add: good_package_def)
  then show ?thesis
    by (simp add: execute_fn_def is_breaked_def work_func_def BLI_rcti_init_def)
qed

lemma executed_fn_good:
  assumes "0 \<le> sint (num_sub_works_finished w)" "sint (num_sub_works_finished w) < 2147483647"
  shows "executed_fn p w =
     Inr (emit MutexUnlock
           (if num_sub_works_finished w + 1 = cap_num_sub_works p
            then emit ConditionNotifyOne ((emit MutexLock w)
                   \<lparr>num_sub_works_finished := num_sub_works_finished w + 1\<rparr>)
            else (emit MutexLock w)\<lparr>num_sub_works_finished := num_sub_works_finished w + 1\<rparr>))"
proof -
  have "c_add (num_sub_works_finished w) 1 = Inr (num_sub_works_finished w + 1)"
    using assms by (intro c_add_ok) simp_all
  then show ?thesis
    by (simp add: executed_fn_def emit_def Let_def)
qed

lemma run_package_ran:
  assumes g: "good_package nw p"
    and c: "0 \<le> sint (num_sub_works_finished w)" "sint (num_sub_works_finished w) < sint nw"
  shows "\<exists>w'. run_package p w = Inr w' \<and> ran nw 1 w w'"
proof -
  have lt: "sint (num_sub_works_finished w) < 2147483647"
    using c sint_c_int_le[of nw] by linarith
  have s: "sint (num_sub_works_finished w + 1) = sint (num_sub_works_finished w) + 1"
    using sint_add_ok[of "num_sub_works_finished w" 1] c lt by simp
  have n: "cap_num_sub_works p = nw" using g by (simp add: good_package_def)
  have eq: "num_sub_works_finished w + 1 = nw \<longleftrightarrow> sint (num_sub_works_finished w) + 1 = sint nw"
    using s sint_inj_c[of "num_sub_works_finished w + 1" nw] by auto
  show ?thesis
  proof (cases "test_break w (break_queries w)")
    case True
    then show ?thesis
      using s eq
      by (simp add: run_package_def execute_fn_good[OF g] executed_fn_good c lt n ran_def
          emit_def scheduled_def work_funcs_def)
  next
    case False
    then have "\<not> (\<forall>j\<ge>break_queries w. test_break w j)" by auto
    then show ?thesis
      using False s eq
      by (simp add: run_package_def execute_fn_good[OF g] executed_fn_good c lt n ran_def
          emit_def scheduled_def work_funcs_def)
  qed
qed

lemma run_packages_ran:
  assumes "\<forall>p\<in>set qs. good_package nw p" "0 \<le> sint (num_sub_works_finished w)"
    "sint (num_sub_works_finished w) + int (length qs) \<le> sint nw"
  shows "\<exists>w'. run_packages qs w = Inr w' \<and> ran nw (length qs) w w'"
  using assms
proof (induction qs arbitrary: w)
  case Nil
  then show ?case by (simp add: ran_refl)
next
  case (Cons p qs)
  have g: "good_package nw p" using Cons.prems(1) by simp
  have lt: "sint (num_sub_works_finished w) < sint nw" using Cons.prems(3) by simp
  obtain w1 where w1: "run_package p w = Inr w1" "ran nw 1 w w1"
    using run_package_ran[OF g Cons.prems(2) lt] by blast
  have f1: "sint (num_sub_works_finished w1) = sint (num_sub_works_finished w) + 1"
    using w1(2) by (simp add: ran_def)
  have "\<exists>w'. run_packages qs w1 = Inr w' \<and> ran nw (length qs) w1 w'"
    using Cons.prems f1 by (intro Cons.IH) simp_all
  then obtain w' where w': "run_packages qs w1 = Inr w'" "ran nw (length qs) w1 w'" by blast
  have "ran nw (1 + length qs) w w'" using ran_trans[OF w1(2) w'(2)] .
  then show ?case using w1(1) w'(1) by simp
qed

lemma cycle_inv_start:
  assumes "queue s = []" "num_sub_works_finished s = 0"
  shows "cycle_inv s nw [] s"
  using assms by (simp add: cycle_inv_def scheduled_def work_funcs_def)

lemma cycle_inv_emit:
  assumes "cycle_inv s nw ps w" "scheduled [e] = []" "work_funcs [e] = []"
  shows "cycle_inv s nw ps (emit e w)"
proof -
  obtain evs where evs: "trace w = trace s @ evs" "scheduled evs = ps"
      "(\<forall>j\<ge>break_queries s. test_break s j) \<longrightarrow> work_funcs evs = []"
    using assms(1) unfolding cycle_inv_def by blast
  have "trace (emit e w) = trace s @ (evs @ [e])" using evs(1) by (simp add: emit_def)
  moreover have "scheduled (evs @ [e]) = ps" using evs(2) assms(2) by simp
  moreover have "(\<forall>j\<ge>break_queries s. test_break s j) \<longrightarrow> work_funcs (evs @ [e]) = []"
    using evs(3) assms(3) by simp
  ultimately show ?thesis
    using assms(1) unfolding cycle_inv_def by (auto simp: emit_def)
qed

lemma cycle_inv_ran:
  assumes inv: "cycle_inv s nw ps w" and k: "k \<le> length (queue w)"
    and r: "ran nw k (w\<lparr>scheduler_calls := c, queue := drop k (queue w)\<rparr>) w'"
  shows "cycle_inv s nw ps w'"
proof -
  obtain evs where evs: "trace w = trace s @ evs" "scheduled evs = ps"
      "(\<forall>j\<ge>break_queries s. test_break s j) \<longrightarrow> work_funcs evs = []"
    using inv unfolding cycle_inv_def by blast
  obtain e2 where e2: "trace w' = trace w @ e2" "scheduled e2 = []"
      "(\<forall>j\<ge>break_queries w. test_break w j) \<longrightarrow> work_funcs e2 = []"
    using r unfolding ran_def by auto
  have tb: "test_break w = test_break s" "break_queries s \<le> break_queries w"
    using inv by (simp_all add: cycle_inv_def)
  have a: "trace w' = trace s @ (evs @ e2)" using evs(1) e2(1) by simp
  have b: "scheduled (evs @ e2) = ps" using evs(2) e2(2) by simp
  have c: "(\<forall>j\<ge>break_queries s. test_break s j) \<longrightarrow> work_funcs (evs @ e2) = []"
    using evs(3) e2(3) tb by simp
  have q: "queue w' = drop k (queue w)" using r by (simp add: ran_def)
  have g: "\<forall>p\<in>set (queue w'). good_package nw p"
    using inv q by (auto simp: cycle_inv_def dest: in_set_dropD)
  have f: "sint (num_sub_works_finished w') = sint (num_sub_works_finished w) + int k"
    using r by (simp add: ran_def)
  have t: "test_break w' = test_break s" "break_queries s \<le> break_queries w'"
    using r tb by (simp_all add: ran_def)
  have n: "0 \<le> sint (num_sub_works_finished w')"
      "sint (num_sub_works_finished w') + int (length (queue w')) = int (length ps)"
    using inv f q k by (simp_all add: cycle_inv_def)
  show ?thesis
    unfolding cycle_inv_def using t g n a b c by blast
qed

lemma workers_progress_inv:
  assumes inv: "cycle_inv s nw ps w" and le: "int (length ps) \<le> sint nw"
  shows "\<exists>w'. workers_progress w = Inr w' \<and> cycle_inv s nw ps w'"
proof -
  define k where "k = min (pace w (scheduler_calls w)) (length (queue w))"
  define w1 where "w1 = w\<lparr>scheduler_calls := Suc (scheduler_calls w), queue := drop k (queue w)\<rparr>"
  have k: "k \<le> length (queue w)" by (simp add: k_def)
  have len: "length (take k (queue w)) = k" using k by simp
  have g: "\<forall>p\<in>set (take k (queue w)). good_package nw p"
    using inv by (auto simp: cycle_inv_def dest: in_set_takeD)
  have f0: "0 \<le> sint (num_sub_works_finished w1)"
    using inv by (simp add: cycle_inv_def w1_def)
  have f1: "sint (num_sub_works_finished w1) + int (length (take k (queue w))) \<le> sint nw"
    using inv le k by (simp add: cycle_inv_def w1_def)
  obtain w' where w': "run_packages (take k (queue w)) w1 = Inr w'"
      "ran nw (length (take k (queue w))) w1 w'"
    using run_packages_ran[OF g f0 f1] by blast
  have "cycle_inv s nw ps w'"
    using cycle_inv_ran[OF inv k] w'(2) unfolding len w1_def by blast
  moreover have "workers_progress w = Inr w'"
    using w'(1) by (simp add: workers_progress_def Let_def k_def w1_def)
  ultimately show ?thesis by blast
qed

lemma schedule_inv:
  assumes inv: "cycle_inv s nw ps w" and g: "good_package nw p"
    and lt: "int (length ps) < sint nw"
  shows "\<exists>w'. WorkScheduler_schedule p w = Inr w' \<and> cycle_inv s nw (ps @ [p]) w'"
proof -
  define wa where "wa = (emit (Schedule p) w)\<lparr>queue := queue w @ [p]\<rparr>"
  obtain evs where evs: "trace w = trace s @ evs" "scheduled evs = ps"
      "(\<forall>j\<ge>break_queries s. test_break s j) \<longrightarrow> work_funcs evs = []"
    using inv unfolding cycle_inv_def by blast
  have a: "trace wa = trace s @ (evs @ [Schedule p])"
    using evs(1) by (simp add: wa_def emit_def)
  have b: "scheduled (evs @ [Schedule p]) = ps @ [p]"
    using evs(2) by (simp add: scheduled_def)
  have c: "(\<forall>j\<ge>break_queries s. test_break s j) \<longrightarrow> work_funcs (evs @ [Schedule p]) = []"
    using evs(3) by (simp add: work_funcs_def)
  have "cycle_inv s nw (ps @ [p]) wa"
    unfolding cycle_inv_def using inv g a b c
    by (auto simp: cycle_inv_def wa_def emit_def)
  moreover have "int (length (ps @ [p])) \<le> sint nw" using lt by simp
  ultimately have "\<exists>w'. workers_progress wa = Inr w' \<and> cycle_inv s nw (ps @ [p]) w'"
    by (rule workers_progress_inv)
  then show ?thesis by (simp add: WorkScheduler_schedule_def wa_def)
qed

lemma submit_all_inv:
  assumes "cycle_inv s nw ps w" "\<forall>p\<in>set qs. good_package nw p"
    "int (length ps) + int (length qs) \<le> sint nw"
  shows "\<exists>w'. submit_all qs w = Inr w' \<and> cycle_inv s nw (ps @ qs) w'"
  using assms
proof (induction qs arbitrary: ps w)
  case Nil
  then show ?case by simp
next
  case (Cons p qs)
  have g: "good_package nw p" using Cons.prems(2) by simp
  have lt: "int (length ps) < sint nw" using Cons.prems(3) by simp
  obtain w1 where w1: "WorkScheduler_schedule p w = Inr w1" "cycle_inv s nw (ps @ [p]) w1"
    using schedule_inv[OF Cons.prems(1) g lt] by blast
  have "\<exists>w'. submit_all qs w1 = Inr w' \<and> cycle_inv s nw ((ps @ [p]) @ qs) w'"
    using Cons.prems w1(2) by (intro Cons.IH) simp_all
  then show ?case using w1(1) by simp
qed

lemma finish_inv:
  assumes inv: "cycle_inv s nw ps w" and le: "int (length ps) \<le> sint nw"
  shows "\<exists>w'. WorkScheduler_finish w = Inr w' \<and> cycle_inv s nw ps w'"
proof -
  have "cycle_inv s nw ps (emit Finish w)"
    using inv by (rule cycle_inv_emit) (simp_all add: scheduled_def work_funcs_def)
  then show ?thesis
    unfolding WorkScheduler_finish_def using le by (rule workers_progress_inv)
qed

lemma condition_wait_inv:
  assumes inv: "cycle_inv s nw ps w" and eq: "int (length ps) = sint nw"
    and lt: "sint (num_sub_works_finished w) < sint nw"
  shows "\<exists>w'. BLI_condition_wait w = Inr w' \<and> cycle_inv s nw ps w' \<and> queue w' = []"
proof -
  define w1 where "w1 = emit ConditionWait w"
  define w1' where "w1' = w1\<lparr>scheduler_calls := scheduler_calls w1, queue := drop (length (queue w1)) (queue w1)\<rparr>"
  have inv1: "cycle_inv s nw ps w1"
    unfolding w1_def using inv
    by (rule cycle_inv_emit) (simp_all add: scheduled_def work_funcs_def)
  have e: "w1\<lparr>queue := []\<rparr> = w1'" by (simp add: w1'_def)
  have g: "\<forall>p\<in>set (queue w1). good_package nw p"
    using inv1 by (simp add: cycle_inv_def)
  have f0: "0 \<le> sint (num_sub_works_finished w1')"
    using inv1 by (simp add: cycle_inv_def w1'_def)
  have fq: "sint (num_sub_works_finished w1) + int (length (queue w1)) = sint nw"
    using inv1 eq by (simp add: cycle_inv_def)
  have f1: "sint (num_sub_works_finished w1') + int (length (queue w1)) \<le> sint nw"
    using fq by (simp add: w1'_def)
  obtain w2 where w2: "run_packages (queue w1) w1' = Inr w2" "ran nw (length (queue w1)) w1' w2"
    using run_packages_ran[OF g f0 f1] by blast
  have inv2: "cycle_inv s nw ps w2"
    using cycle_inv_ran[OF inv1 le_refl] w2(2) unfolding w1'_def by blast
  have q2: "queue w2 = []" using w2(2) by (simp add: ran_def w1'_def)
  have "sint (num_sub_works_finished w1) < sint nw"
    using lt by (simp add: w1_def emit_def)
  then have pos: "0 < length (queue w1)"
    using fq by (cases "queue w1") simp_all
  have f2: "sint (num_sub_works_finished w2) = sint nw"
    using w2(2) fq by (simp add: ran_def w1'_def)
  obtain evs where evs: "trace w2 = trace w1' @ evs" "ConditionNotifyOne \<in> set evs"
    using w2(2) pos f2 unfolding ran_def by blast
  have "drop (length (trace w1)) (trace w2) = evs"
    using evs(1) by (simp add: w1'_def)
  then have "BLI_condition_wait w = Inr w2"
    using w2(1) evs(2) e by (simp add: BLI_condition_wait_def Let_def w1_def[symmetric])
  then show ?thesis using inv2 q2 by blast
qed

section \<open>The packages of the split\<close>

lemma sub_work_at_facts:
  fixes n H :: int and nw :: c_int
  assumes n: "0 < n" "n \<le> H" and H: "H = sint (ymax rect) - sint (ymin rect)"
    and Hmax: "H \<le> 2147483647" and i: "int i < n"
  defines "p \<equiv> sub_work_at rect nw (H div n) (H mod n) i"
  shows "sint (cap_sub_work_y p) = sint (ymin rect) + int i * (H div n) + min (int i) (H mod n)"
    and "sint (cap_sub_work_height p) = H div n + (if int i < H mod n then 1 else 0)"
    and "sint (cap_sub_work_y p) + sint (cap_sub_work_height p) \<le> sint (ymax rect)"
    and "sint (ymin rect) \<le> sint (cap_sub_work_y p)"
    and "0 < sint (cap_sub_work_height p)"
proof -
  define b where "b = H div n"
  define r where "r = H mod n"
  define h where "h = b + (if int i < r then 1 else 0)"
  define y where "y = sint (ymin rect) + int i * b + min (int i) r"
  have r: "0 \<le> r" "r < n" using n by (simp_all add: r_def)
  have Hbr: "b * n + r = H" by (simp add: b_def r_def)
  have b1: "1 \<le> b"
  proof (rule ccontr)
    assume "\<not> 1 \<le> b"
    then have "b \<le> 0" by simp
    then have "b * n \<le> 0" using n by (simp add: mult_le_0_iff)
    then show False using Hbr r n by linarith
  qed
  have b0: "0 \<le> b" using b1 by simp
  have bn: "b \<le> b * n" using b0 n by (simp add: mult_le_cancel_left1)
  have h0: "0 < h" using b1 by (simp add: h_def)
  have hH: "h \<le> H"
  proof (cases "int i < r")
    case True
    then have "h = b + 1" "1 \<le> r" by (simp_all add: h_def)
    then show ?thesis using bn Hbr by linarith
  next
    case False
    then have "h = b" by (simp add: h_def)
    then show ?thesis using bn Hbr r by linarith
  qed
  note h = h0 hH
  have ynext: "y + h = sint (ymin rect) + (int i + 1) * b + min (int i + 1) r"
    by (auto simp: y_def h_def algebra_simps min_def)
  have "(int i + 1) * b + min (int i + 1) r \<le> n * b + min n r"
    using offset_mono[OF b0, of "int i + 1" n r] i by simp
  then have ynext_le: "y + h \<le> sint (ymax rect)"
    using ynext Hbr r H by (simp add: mult.commute min_def split: if_splits)
  have "0 * b + min 0 r \<le> int i * b + min (int i) r"
    using offset_mono[OF b0, of 0 "int i" r] by simp
  then have y_ge: "sint (ymin rect) \<le> y"
    using r by (simp add: y_def min_def split: if_splits)
  have ys: "sint (word_of_int y :: c_int) = y"
    by (rule sint_word_of_int_c)
       (use y_ge ynext_le h sint_c_int_ge[of "ymin rect"] sint_c_int_le[of "ymax rect"] in linarith)+
  have hs: "sint (word_of_int h :: c_int) = h"
    by (rule sint_word_of_int_c) (use h Hmax in linarith)+
  have py: "cap_sub_work_y p = word_of_int y"
    by (simp only: p_def sub_work_at_def y_def b_def r_def) simp
  have ph: "cap_sub_work_height p = word_of_int h"
    by (simp only: p_def sub_work_at_def h_def b_def r_def) simp
  show "sint (cap_sub_work_y p) = sint (ymin rect) + int i * (H div n) + min (int i) (H mod n)"
    unfolding py ys by (simp add: y_def b_def r_def)
  show "sint (cap_sub_work_height p) = H div n + (if int i < H mod n then 1 else 0)"
    unfolding ph hs by (simp add: h_def b_def r_def)
  show "sint (cap_sub_work_y p) + sint (cap_sub_work_height p) \<le> sint (ymax rect)"
    unfolding py ph ys hs using ynext_le .
  show "sint (ymin rect) \<le> sint (cap_sub_work_y p)"
    unfolding py ys using y_ge .
  show "0 < sint (cap_sub_work_height p)"
    unfolding ph hs using h(1) .
qed

lemma sub_work_at_caps [simp]:
  "cap_num_sub_works (sub_work_at rect nw b r i) = nw"
  "cap_work_rect (sub_work_at rect nw b r i) = rect"
  "type (sub_work_at rect nw b r i) = CustomFunction"
  by (simp_all add: sub_work_at_def)

lemma length_sub_works: "length (sub_works sys rect) = nat (num_sub_works_of sys rect)"
  by (simp add: sub_works_def num_sub_works_of_def Let_def)

lemma sub_works_nth:
  assumes "i < length (sub_works sys rect)"
  shows "sub_works sys rect ! i =
     sub_work_at rect (word_of_int (num_sub_works_of sys rect))
       ((sint (ymax rect) - sint (ymin rect)) div num_sub_works_of sys rect)
       ((sint (ymax rect) - sint (ymin rect)) mod num_sub_works_of sys rect) i"
  using assms by (simp add: sub_works_def num_sub_works_of_def Let_def)

lemma sub_works_good:
  assumes y: "sint (ymin rect) \<le> sint (ymax rect)"
    and Hmax: "sint (ymax rect) - sint (ymin rect) \<le> 2147483647"
    and K: "1 \<le> sint (num_work_threads sys)"
    and p: "p \<in> set (sub_works sys rect)"
  shows "good_package (word_of_int (num_sub_works_of sys rect)) p"
proof -
  define H where "H = sint (ymax rect) - sint (ymin rect)"
  define n where "n = num_sub_works_of sys rect"
  obtain i where i: "i < length (sub_works sys rect)" "p = sub_works sys rect ! i"
    using p by (auto simp: in_set_conv_nth)
  have il: "int i < n" using i(1) by (simp add: length_sub_works n_def)
  then have npos: "0 < n" by linarith
  have nH: "n \<le> H" by (simp add: n_def num_sub_works_of_def H_def)
  have pe: "p = sub_work_at rect (word_of_int n) (H div n) (H mod n) i"
    using i sub_works_nth[OF i(1)] by (simp add: n_def H_def)
  note f = sub_work_at_facts[OF npos nH H_def Hmax[folded H_def] il,
      where nw = "word_of_int n", folded pe]
  have "sint (ymin rect) \<le> sint (cap_sub_work_y p) + sint (cap_sub_work_height p)"
    using f(4) f(5) by linarith
  then show ?thesis
    using f(3) sint_c_int_ge[of "ymin rect"] sint_c_int_le[of "ymax rect"]
    by (simp add: good_package_def pe n_def)
qed

lemma sint_num_sub_works:
  assumes y: "sint (ymin rect) \<le> sint (ymax rect)"
    and Hmax: "sint (ymax rect) - sint (ymin rect) \<le> 2147483647"
    and K: "1 \<le> sint (num_work_threads sys)"
  shows "sint (word_of_int (num_sub_works_of sys rect) :: c_int) = num_sub_works_of sys rect"
    and "0 \<le> num_sub_works_of sys rect"
proof -
  show 0: "0 \<le> num_sub_works_of sys rect"
    using y K by (simp add: num_sub_works_of_def)
  have "num_sub_works_of sys rect \<le> 2147483647"
    using Hmax by (simp add: num_sub_works_of_def)
  then show "sint (word_of_int (num_sub_works_of sys rect) :: c_int) = num_sub_works_of sys rect"
    using 0 by (intro sint_word_of_int_c) linarith+
qed

section \<open>A whole cycle\<close>

lemma execute_work_total:
  assumes y: "sint (ymin rect) \<le> sint (ymax rect)"
    and Hmax: "sint (ymax rect) - sint (ymin rect) \<le> 2147483647"
    and K: "1 \<le> sint (num_work_threads sys)"
    and q: "queue w = []"
    and nb: "\<not> test_break w (break_queries w)"
  shows "\<exists>w1 w'.
           split_and_submit sys rect (w\<lparr>break_queries := Suc (break_queries w)\<rparr>) =
             Inr (word_of_int (num_sub_works_of sys rect), ymax rect, w1) \<and>
           cycle_inv (w\<lparr>break_queries := Suc (break_queries w), num_sub_works_finished := 0\<rparr>)
             (word_of_int (num_sub_works_of sys rect)) (sub_works sys rect) w1 \<and>
           execute_work asserts sys rect w = Inr w' \<and>
           cycle_inv (w\<lparr>break_queries := Suc (break_queries w), num_sub_works_finished := 0\<rparr>)
             (word_of_int (num_sub_works_of sys rect)) (sub_works sys rect) w' \<and>
           queue w' = [] \<and>
           sint (num_sub_works_finished w') = num_sub_works_of sys rect"
proof -
  define s where "s = w\<lparr>break_queries := Suc (break_queries w), num_sub_works_finished := 0\<rparr>"
  define nw :: c_int where "nw = word_of_int (num_sub_works_of sys rect)"
  define ps where "ps = sub_works sys rect"
  have ns: "sint nw = num_sub_works_of sys rect" "0 \<le> num_sub_works_of sys rect"
    unfolding nw_def using sint_num_sub_works[OF y Hmax K] by simp_all
  have len: "int (length ps) = sint nw"
    using ns by (simp add: ps_def length_sub_works)
  have good: "\<forall>p\<in>set ps. good_package nw p"
    unfolding ps_def nw_def using sub_works_good[OF y Hmax K] by blast
  have start: "cycle_inv s nw [] s"
    by (rule cycle_inv_start) (simp_all add: s_def q)
  obtain w1 where w1: "submit_all ps s = Inr w1" "cycle_inv s nw ([] @ ps) w1"
    using submit_all_inv[OF start good] len by auto
  have inv1: "cycle_inv s nw ps w1" using w1(2) by simp
  have sas: "split_and_submit sys rect (w\<lparr>break_queries := Suc (break_queries w)\<rparr>) =
      Inr (nw, ymax rect, w1)"
    using w1(1)
    by (simp add: split_and_submit_eq[OF y Hmax K] ps_def[symmetric] s_def nw_def
        num_sub_works_of_def)
  obtain w2 where w2: "WorkScheduler_finish w1 = Inr w2" "cycle_inv s nw ps w2"
    using finish_inv[OF inv1] len by auto
  define w3 where "w3 = BLI_mutex_lock w2"
  have inv3: "cycle_inv s nw ps w3"
    unfolding w3_def BLI_mutex_lock_def using w2(2)
    by (rule cycle_inv_emit) (simp_all add: scheduled_def work_funcs_def)
  obtain w4 where w4:
    "(if sint (num_sub_works_finished w3) < sint nw then BLI_condition_wait w3 else Inr w3) = Inr w4"
    "cycle_inv s nw ps w4" "queue w4 = []"
  proof (cases "sint (num_sub_works_finished w3) < sint nw")
    case True
    then show ?thesis
      using condition_wait_inv[OF inv3 len True] that by auto
  next
    case False
    have "sint (num_sub_works_finished w3) + int (length (queue w3)) = sint nw"
      using inv3 len by (simp add: cycle_inv_def)
    then have "queue w3 = []" using False by (cases "queue w3") simp_all
    then show ?thesis using that[of w3] False inv3 by simp
  qed
  define w5 where "w5 = BLI_mutex_unlock w4"
  have inv5: "cycle_inv s nw ps w5"
    unfolding w5_def BLI_mutex_unlock_def using w4(2)
    by (rule cycle_inv_emit) (simp_all add: scheduled_def work_funcs_def)
  have q5: "queue w5 = []" using w4(3) by (simp add: w5_def BLI_mutex_unlock_def emit_def)
  have f5: "sint (num_sub_works_finished w5) = num_sub_works_of sys rect"
    using inv5 q5 len ns by (simp add: cycle_inv_def)
  have "execute_work asserts sys rect w = Inr w5"
    using nb sas w2(1) w4(1)
    by (simp add: execute_work_def is_breaked_def BLI_assert_def w3_def[symmetric]
        w5_def[symmetric] Let_def)
  then show ?thesis
    using sas inv1 inv5 q5 f5 unfolding s_def nw_def ps_def by blast
qed

lemma execute_work_cycle:
  assumes y: "sint (ymin rect) \<le> sint (ymax rect)"
    and Hmax: "sint (ymax rect) - sint (ymin rect) \<le> 2147483647"
    and K: "1 \<le> sint (num_work_threads sys)"
    and q: "queue w = []"
    and nb: "\<not> test_break w (break_queries w)"
  shows "\<exists>w1 w'.
           split_and_submit sys rect (w\<lparr>break_queries := Suc (break_queries w)\<rparr>) =
             Inr (word_of_int (num_sub_works_of sys rect), ymax rect, w1) \<and>
           0 \<le> sint (num_sub_works_finished w1) \<and>
           sint (num_sub_works_finished w1) + int (length (queue w1)) = num_sub_works_of sys rect \<and>
           execute_work asserts sys rect w = Inr w' \<and>
           scheduled (events_since w w') = sub_works sys rect \<and>
           queue w' = [] \<and>
           sint (num_sub_works_finished w') = num_sub_works_of sys rect \<and>
           test_break w' = test_break w \<and>
           ((\<forall>j>break_queries w. test_break w j) \<longrightarrow> work_funcs (events_since w w') = [])"
proof -
  define s where "s = w\<lparr>break_queries := Suc (break_queries w), num_sub_works_finished := 0\<rparr>"
  obtain w1 w' where t:
    "split_and_submit sys rect (w\<lparr>break_queries := Suc (break_queries w)\<rparr>) =
       Inr (word_of_int (num_sub_works_of sys rect), ymax rect, w1)"
    "cycle_inv s (word_of_int (num_sub_works_of sys rect)) (sub_works sys rect) w1"
    "execute_work asserts sys rect w = Inr w'"
    "cycle_inv s (word_of_int (num_sub_works_of sys rect)) (sub_works sys rect) w'"
    "queue w' = []" "sint (num_sub_works_finished w') = num_sub_works_of sys rect"
    using execute_work_total[OF y Hmax K q nb, of asserts] unfolding s_def by blast
  have n0: "0 \<le> num_sub_works_of sys rect" using sint_num_sub_works(2)[OF y Hmax K] .
  have c1: "0 \<le> sint (num_sub_works_finished w1)"
    "sint (num_sub_works_finished w1) + int (length (queue w1)) = num_sub_works_of sys rect"
    using t(2) n0 by (simp_all add: cycle_inv_def length_sub_works)
  obtain evs where evs: "trace w' = trace s @ evs" "scheduled evs = sub_works sys rect"
      "(\<forall>j\<ge>break_queries s. test_break s j) \<longrightarrow> work_funcs evs = []"
    using t(4) unfolding cycle_inv_def by blast
  have ev: "events_since w w' = evs"
    using evs(1) by (simp add: events_since_def s_def)
  have wf: "(\<forall>j>break_queries w. test_break w j) \<longrightarrow> work_funcs (events_since w w') = []"
    using evs(3) unfolding ev by (simp add: s_def Suc_le_eq)
  have tb: "test_break w' = test_break w" using t(4) by (simp add: cycle_inv_def s_def)
  show ?thesis
    using t(1) c1 t(3) evs(2)[folded ev] t(5) t(6) tb wf by blast
qed

section \<open>Heights, offsets and rows\<close>

lemma sum_list_heights:
  fixes b r :: int
  assumes "0 \<le> r"
  shows "sum_list (map (\<lambda>i. b + (if int i < r then 1 else 0)) [0..<m]) = int m * b + min (int m) r"
  using assms by (induction m) (auto simp: algebra_simps min_def)

lemma size_y_Inr:
  assumes "BLI_rcti_size_y rect = Inr H"
  shows "sint H = sint (ymax rect) - sint (ymin rect)"
    and "sint (ymax rect) - sint (ymin rect) \<le> 2147483647"
    and "- 2147483648 \<le> sint (ymax rect) - sint (ymin rect)"
  using assms c_int_of_Inr[of "sint (ymax rect) - sint (ymin rect)" H]
  by (auto simp: BLI_rcti_size_y_def c_sub_def c_int_of_def split: if_splits)

lemma sub_works_heights:
  assumes y: "sint (ymin rect) \<le> sint (ymax rect)"
    and Hmax: "sint (ymax rect) - sint (ymin rect) \<le> 2147483647"
  shows "map (\<lambda>p. sint (cap_sub_work_height p)) (sub_works sys rect) =
     map (\<lambda>i. (sint (ymax rect) - sint (ymin rect)) div num_sub_works_of sys rect +
               (if int i < (sint (ymax rect) - sint (ymin rect)) mod num_sub_works_of sys rect
                then 1 else 0))
       [0..<nat (num_sub_works_of sys rect)]"
proof -
  define H where "H = sint (ymax rect) - sint (ymin rect)"
  define n where "n = num_sub_works_of sys rect"
  have nH: "n \<le> H" by (simp add: n_def num_sub_works_of_def H_def)
  have "sint (cap_sub_work_height (sub_work_at rect (word_of_int n) (H div n) (H mod n) i)) =
      H div n + (if int i < H mod n then 1 else 0)" if "i < nat n" for i
  proof -
    have i: "int i < n" using that by linarith
    then have npos: "0 < n" by linarith
    show ?thesis
      by (rule sub_work_at_facts(2)[OF npos nH H_def Hmax[folded H_def] i])
  qed
  moreover have "sub_works sys rect =
      map (sub_work_at rect (word_of_int n) (H div n) (H mod n)) [0..<nat n]"
    by (simp add: sub_works_def Let_def H_def n_def num_sub_works_of_def)
  ultimately show ?thesis
    unfolding H_def[symmetric] n_def[symmetric] by simp
qed

lemma sub_works_offsets:
  assumes y: "sint (ymin rect) \<le> sint (ymax rect)"
    and Hmax: "sint (ymax rect) - sint (ymin rect) \<le> 2147483647"
  shows "map (\<lambda>p. sint (cap_sub_work_y p)) (sub_works sys rect) =
     map (\<lambda>i. sint (ymin rect) +
               int i * ((sint (ymax rect) - sint (ymin rect)) div num_sub_works_of sys rect) +
               min (int i) ((sint (ymax rect) - sint (ymin rect)) mod num_sub_works_of sys rect))
       [0..<nat (num_sub_works_of sys rect)]"
proof -
  define H where "H = sint (ymax rect) - sint (ymin rect)"
  define n where "n = num_sub_works_of sys rect"
  have nH: "n \<le> H" by (simp add: n_def num_sub_works_of_def H_def)
  have "sint (cap_sub_work_y (sub_work_at rect (word_of_int n) (H div n) (H mod n) i)) =
      sint (ymin rect) + int i * (H div n) + min (int i) (H mod n)" if "i < nat n" for i
  proof -
    have i: "int i < n" using that by linarith
    then have npos: "0 < n" by linarith
    show ?thesis
      by (rule sub_work_at_facts(1)[OF npos nH H_def Hmax[folded H_def] i])
  qed
  moreover have "sub_works sys rect =
      map (sub_work_at rect (word_of_int n) (H div n) (H mod n)) [0..<nat n]"
    by (simp add: sub_works_def Let_def H_def n_def num_sub_works_of_def)
  ultimately show ?thesis
    unfolding H_def[symmetric] n_def[symmetric] by simp
qed

lemma stacked_chain:
  fixes Y :: "nat \<Rightarrow> int"
  assumes "\<forall>i<m. Y i < Y (Suc i)" "k \<le> m"
  shows "stacked (Y k) (map (\<lambda>i. (Y i, Y (Suc i))) [k..<m]) (Y m)"
  using assms(2)
proof (induction "m - k" arbitrary: k)
  case 0
  then show ?case by simp
next
  case (Suc d)
  then have k: "k < m" by simp
  have "stacked (Y (Suc k)) (map (\<lambda>i. (Y i, Y (Suc i))) [Suc k..<m]) (Y m)"
    using Suc k by (intro Suc.hyps(1)) simp_all
  then show ?case
    using k assms(1) by (simp add: upt_conv_Cons)
qed

lemma stacked_le: "stacked lo rs hi \<Longrightarrow> lo \<le> hi"
proof (induction rs arbitrary: lo)
  case Nil
  then show ?case by simp
next
  case (Cons ab rs)
  obtain a b where ab: "ab = (a, b)" by (cases ab)
  have "b \<le> hi" using Cons.prems ab by (intro Cons.IH) simp
  then show ?case using Cons.prems ab by simp
qed

lemma stacked_count:
  "stacked lo rs hi \<Longrightarrow>
   length (filter (\<lambda>(a, b). a \<le> x \<and> x < b) rs) = (if lo \<le> x \<and> x < hi then 1 else 0)"
proof (induction rs arbitrary: lo)
  case Nil
  then show ?case by simp
next
  case (Cons ab rs)
  obtain a b where ab: "ab = (a, b)" by (cases ab)
  have s: "a = lo" "a < b" "stacked b rs hi" using Cons.prems ab by simp_all
  have le: "b \<le> hi" using s(3) by (rule stacked_le)
  show ?case
    using Cons.IH[OF s(3)] s(1,2) le ab by auto
qed

lemma sub_works_rows:
  assumes y: "sint (ymin rect) \<le> sint (ymax rect)"
    and Hmax: "sint (ymax rect) - sint (ymin rect) \<le> 2147483647"
    and K: "1 \<le> sint (num_work_threads sys)"
  shows "stacked (sint (ymin rect)) (map (\<lambda>p. rows (split_rect p)) (sub_works sys rect))
           (sint (ymax rect))"
proof -
  define H where "H = sint (ymax rect) - sint (ymin rect)"
  define n where "n = num_sub_works_of sys rect"
  define b where "b = H div n"
  define r where "r = H mod n"
  define Y where "Y i = sint (ymin rect) + int i * b + min (int i) r" for i :: nat
  have H0: "0 \<le> H" using y by (simp add: H_def)
  have n0: "0 \<le> n" "n \<le> H" using H0 K by (simp_all add: n_def num_sub_works_of_def H_def)
  have sw: "sub_works sys rect = map (sub_work_at rect (word_of_int n) b r) [0..<nat n]"
    by (simp add: sub_works_def Let_def H_def n_def num_sub_works_of_def b_def r_def)
  have step: "rows (split_rect (sub_work_at rect (word_of_int n) b r i)) = (Y i, Y (Suc i)) \<and>
      Y i < Y (Suc i)" if "i < nat n" for i
  proof -
    define p where "p = sub_work_at rect (word_of_int n) b r i"
    have i: "int i < n" using that by linarith
    then have npos: "0 < n" by linarith
    note f = sub_work_at_facts[OF npos n0(2) H_def Hmax[folded H_def] i,
        where nw = "word_of_int n", folded b_def r_def, folded p_def]
    have lo: "- 2147483648 \<le> sint (cap_sub_work_y p) + sint (cap_sub_work_height p)"
      using f(4) f(5) sint_c_int_ge[of "ymin rect"] by linarith
    have hi: "sint (cap_sub_work_y p) + sint (cap_sub_work_height p) \<le> 2147483647"
      using f(3) sint_c_int_le[of "ymax rect"] by linarith
    have add: "sint (cap_sub_work_y p + cap_sub_work_height p) =
        sint (cap_sub_work_y p) + sint (cap_sub_work_height p)"
      using lo hi by (rule sint_add_ok)
    have nxt: "sint (cap_sub_work_y p) + sint (cap_sub_work_height p) = Y (Suc i)"
      unfolding f(1) f(2) Y_def by (auto simp: algebra_simps min_def)
    have "rows (split_rect p) = (Y i, Y (Suc i))"
      using f(1) add nxt by (simp add: rows_def split_rect_def BLI_rcti_init_def Y_def)
    moreover have "Y i < Y (Suc i)"
      using f(1) f(5) nxt by (simp add: Y_def)
    ultimately show ?thesis unfolding p_def by simp
  qed
  have map: "map (\<lambda>p. rows (split_rect p)) (sub_works sys rect) =
      map (\<lambda>i. (Y i, Y (Suc i))) [0..<nat n]"
    unfolding sw using step by simp
  have Y0: "Y 0 = sint (ymin rect)"
  proof (cases "n = 0")
    case True
    then have "H = 0" using K by (simp add: n_def num_sub_works_of_def H_def min_def split: if_splits)
    then show ?thesis by (simp add: Y_def r_def)
  next
    case False
    then have "0 \<le> r" using n0 by (simp add: r_def)
    then show ?thesis by (simp add: Y_def)
  qed
  have Yn: "Y (nat n) = sint (ymax rect)"
  proof (cases "n = 0")
    case True
    then have "H = 0" using K by (simp add: n_def num_sub_works_of_def H_def min_def split: if_splits)
    then show ?thesis using True Y0 by (simp add: H_def)
  next
    case False
    then have "0 < n" using n0 by simp
    then have "r < n" "0 \<le> r" by (simp_all add: r_def)
    moreover have "n * b + r = H" by (simp add: b_def r_def)
    ultimately show ?thesis using n0 by (simp add: Y_def H_def min_def)
  qed
  have "stacked (Y 0) (map (\<lambda>i. (Y i, Y (Suc i))) [0..<nat n]) (Y (nat n))"
    using step by (intro stacked_chain) simp_all
  then show ?thesis unfolding map Y0 Yn .
qed

lemma sub_works_rects:
  assumes "p \<in> set (sub_works sys rect)"
  shows "xmin (split_rect p) = xmin rect \<and> xmax (split_rect p) = xmax rect"
  using assms by (auto simp: sub_works_def Let_def split_rect_def BLI_rcti_init_def)

lemma upt_0_4: "[0..<4] = [0, 1, 2, Suc 2]"
  by (simp add: numeral_eq_Suc upt_rec)

section \<open>Calls that submit nothing\<close>

lemma submit_loop_none:
  assumes "sint n \<le> 0"
  shows "submit_loop rect n split 0 rem y w = Inr (y, w)"
  using assms by (subst submit_loop.simps) simp

lemma split_and_submit_none:
  assumes size: "BLI_rcti_size_y rect = Inr Hw"
    and n: "sint (MIN2 (num_work_threads sys) Hw) \<le> 0"
    and sas: "split_and_submit sys rect w = Inr res"
  shows "res = (MIN2 (num_work_threads sys) Hw, ymin rect, w\<lparr>num_sub_works_finished := 0\<rparr>)"
  using sas
  by (auto simp: split_and_submit_def size Let_def submit_loop_none[OF n]
      split: sum.splits if_splits)

lemma execute_work_split_stops:
  assumes "\<not> test_break w (break_queries w)"
    and "split_and_submit sys rect (w\<lparr>break_queries := Suc (break_queries w)\<rparr>) = Inl e"
  shows "execute_work asserts sys rect w = Inl e"
  using assms by (simp add: execute_work_def is_breaked_def)

lemma finish_idle:
  assumes "queue w = []"
  shows "WorkScheduler_finish w =
     Inr (w\<lparr>scheduler_calls := Suc (scheduler_calls w), trace := trace w @ [Finish]\<rparr>)"
  using assms by (simp add: WorkScheduler_finish_def workers_progress_def emit_def)

lemma execute_work_none:
  assumes nb: "\<not> test_break w (break_queries w)" and q: "queue w = []"
    and size: "BLI_rcti_size_y rect = Inr Hw"
    and n: "sint (MIN2 (num_work_threads sys) Hw) \<le> 0"
    and sas: "split_and_submit sys rect (w\<lparr>break_queries := Suc (break_queries w)\<rparr>) = Inr res"
  shows "execute_work asserts sys rect w =
     (if asserts \<and> ymin rect \<noteq> ymax rect
      then Inl (AssertionFailed ''sub_work_y == work_rect.ymax'')
      else Inr (w\<lparr>break_queries := Suc (break_queries w),
                  scheduler_calls := Suc (scheduler_calls w),
                  num_sub_works_finished := 0,
                  trace := trace w @ [Finish, MutexLock, MutexUnlock]\<rparr>))"
proof -
  have res: "res = (MIN2 (num_work_threads sys) Hw, ymin rect,
      w\<lparr>break_queries := Suc (break_queries w), num_sub_works_finished := 0\<rparr>)"
    using split_and_submit_none[OF size n sas] by simp
  have fin: "WorkScheduler_finish
      (w\<lparr>break_queries := Suc (break_queries w), num_sub_works_finished := 0\<rparr>) =
     Inr (w\<lparr>break_queries := Suc (break_queries w), num_sub_works_finished := 0,
            scheduler_calls := Suc (scheduler_calls w), trace := trace w @ [Finish]\<rparr>)"
    using q by (simp add: finish_idle)
  show ?thesis
    using nb n
    by (simp add: execute_work_def is_breaked_def sas res fin BLI_assert_def Let_def
        BLI_mutex_lock_def BLI_mutex_unlock_def emit_def)
qed

lemma nonpos_height_count:
  assumes "sint Hw \<le> 0"
  shows "sint (MIN2 K Hw) \<le> 0"
  using assms by (simp add: MIN2_def)

lemma split_and_submit_nonpos_height:
  assumes size: "BLI_rcti_size_y rect = Inr Hw" and H: "sint Hw \<le> 0"
  shows "split_and_submit sys rect w =
     (case Vector_construct w (MIN2 (num_work_threads sys) Hw) of
        Inl e \<Rightarrow> Inl e
      | Inr u \<Rightarrow>
          Inr (MIN2 (num_work_threads sys) Hw, ymin rect, w\<lparr>num_sub_works_finished := 0\<rparr>))"
proof -
  define n where "n = MIN2 (num_work_threads sys) Hw"
  have n0: "sint (MIN2 (num_work_threads sys) Hw) \<le> 0"
    using H by (rule nonpos_height_count)
  have nH: "sint n \<le> sint Hw" by (simp add: n_def MIN2_def)
  have "\<exists>split m rem. (if sint n = 0 then Inr 0 else c_div Hw n) = Inr split \<and>
      c_mul split n = Inr m \<and> c_sub Hw m = Inr rem"
  proof (cases "sint n = 0")
    case True
    have "c_mul 0 n = Inr 0" by (simp add: c_mul_def c_int_of_def)
    moreover have "c_sub Hw 0 = Inr Hw"
      using sint_c_int_ge[of Hw] sint_c_int_le[of Hw] by (simp add: c_sub_def c_int_of_def)
    ultimately show ?thesis using True by simp
  next
    case False
    then have nneg: "sint n < 0" using n0 by (simp add: n_def)
    define k where "k = sgn (sint Hw) * sgn (sint n) * (\<bar>sint Hw\<bar> div \<bar>sint n\<bar>)"
    have abs: "\<bar>sint Hw\<bar> \<le> \<bar>sint n\<bar>" using nH H nneg by simp
    have d: "\<bar>sint Hw\<bar> div \<bar>sint n\<bar> = (if sint Hw = sint n then 1 else 0)"
    proof (cases "sint Hw = sint n")
      case True
      then show ?thesis using nneg by simp
    next
      case False
      then have "\<bar>sint Hw\<bar> < \<bar>sint n\<bar>" using nH H nneg by simp
      then show ?thesis using False by (simp add: div_pos_pos_trivial)
    qed
    have k: "k = (if sint Hw = sint n then 1 else 0)"
      unfolding k_def d using nneg by simp
    have div: "c_div Hw n = Inr (word_of_int k)"
      using False k by (simp add: c_div_def k_def[symmetric] c_int_of_def)
    have ks: "sint (word_of_int k :: c_int) = k"
      by (rule sint_word_of_int_c) (use k in \<open>simp_all split: if_splits\<close>)
    have kn: "k * sint n = (if sint Hw = sint n then sint n else 0)" using k by simp
    have mr: "- 2147483648 \<le> k * sint n" "k * sint n \<le> 2147483647"
      using kn sint_c_int_ge[of n] sint_c_int_le[of n] by (simp_all split: if_splits)
    have mul: "c_mul (word_of_int k) n = Inr (word_of_int (k * sint n))"
      by (simp only: c_mul_def ks) (rule c_int_of_ok[OF mr])
    have ms: "sint (word_of_int (k * sint n) :: c_int) = k * sint n"
      by (rule sint_word_of_int_c[OF mr])
    have sr: "- 2147483648 \<le> sint Hw - k * sint n" "sint Hw - k * sint n \<le> 2147483647"
      using kn sint_c_int_ge[of Hw] sint_c_int_le[of Hw] by (simp_all split: if_splits)
    have sub: "c_sub Hw (word_of_int (k * sint n)) = Inr (word_of_int (sint Hw - k * sint n))"
      by (simp only: c_sub_def ms) (rule c_int_of_ok[OF sr])
    show ?thesis using False div mul sub by (simp only: if_False) blast
  qed
  then obtain split m rem where c:
    "(if sint n = 0 then Inr 0 else c_div Hw n) = Inr split" "c_mul split n = Inr m"
    "c_sub Hw m = Inr rem"
    by blast
  have n1: "sint n \<le> 0" using n0 by (simp add: n_def)
  show ?thesis
  proof (cases "Vector_construct w n")
    case (Inl e)
    then show ?thesis
      by (simp only: split_and_submit_def size sum.case Let_def n_def[symmetric] c)
  next
    case (Inr u)
    then show ?thesis
      using n1
      by (simp only: split_and_submit_def size sum.case Let_def n_def[symmetric] c
          submit_loop_none prod.case)
  qed
qed

lemma split_and_submit_nonpos_height_returns:
  assumes size: "BLI_rcti_size_y rect = Inr Hw" and H: "sint Hw \<le> 0"
    and vec: "Vector_construct w (MIN2 (num_work_threads sys) Hw) = Inr ()"
  shows "split_and_submit sys rect w =
     Inr (MIN2 (num_work_threads sys) Hw, ymin rect, w\<lparr>num_sub_works_finished := 0\<rparr>)"
  unfolding split_and_submit_nonpos_height[OF size H] vec by simp

lemma execute_work_nonpos_height:
  assumes nb: "\<not> test_break w (break_queries w)" and q: "queue w = []"
    and size: "BLI_rcti_size_y rect = Inr Hw" and H: "sint Hw \<le> 0"
    and vec: "Vector_construct w (MIN2 (num_work_threads sys) Hw) = Inr ()"
  shows "execute_work asserts sys rect w =
     (if asserts \<and> ymin rect \<noteq> ymax rect
      then Inl (AssertionFailed ''sub_work_y == work_rect.ymax'')
      else Inr (w\<lparr>break_queries := Suc (break_queries w),
                  scheduler_calls := Suc (scheduler_calls w),
                  num_sub_works_finished := 0,
                  trace := trace w @ [Finish, MutexLock, MutexUnlock]\<rparr>))"
proof -
  have vec': "Vector_construct (w\<lparr>break_queries := Suc (break_queries w)\<rparr>)
      (MIN2 (num_work_threads sys) Hw) = Inr ()"
    using vec by simp
  show ?thesis
    by (rule execute_work_none[OF nb q size nonpos_height_count[OF H]
          split_and_submit_nonpos_height_returns[OF size H vec']])
qed

lemma execute_work_nonpos_height_stops:
  assumes nb: "\<not> test_break w (break_queries w)"
    and size: "BLI_rcti_size_y rect = Inr Hw" and H: "sint Hw \<le> 0"
    and vec: "Vector_construct w (MIN2 (num_work_threads sys) Hw) = Inl e"
  shows "execute_work asserts sys rect w = Inl e"
proof -
  have "split_and_submit sys rect (w\<lparr>break_queries := Suc (break_queries w)\<rparr>) = Inl e"
    unfolding split_and_submit_nonpos_height[OF size H] using vec by simp
  then show ?thesis by (rule execute_work_split_stops[OF nb])
qed

section \<open>The packages of a returning call\<close>

lemma execute_work_Inr_size:
  assumes "execute_work asserts sys rect w = Inr w'" "\<not> test_break w (break_queries w)"
  shows "\<exists>Hw res. BLI_rcti_size_y rect = Inr Hw \<and>
           split_and_submit sys rect (w\<lparr>break_queries := Suc (break_queries w)\<rparr>) = Inr res"
proof (cases "split_and_submit sys rect (w\<lparr>break_queries := Suc (break_queries w)\<rparr>)")
  case (Inl e)
  then show ?thesis using assms by (simp add: execute_work_def is_breaked_def)
next
  case res: (Inr res)
  show ?thesis
  proof (cases "BLI_rcti_size_y rect")
    case (Inl e)
    then have "split_and_submit sys rect (w\<lparr>break_queries := Suc (break_queries w)\<rparr>) = Inl e"
      by (simp add: split_and_submit_def)
    then show ?thesis using res by simp
  next
    case (Inr Hw)
    then show ?thesis using res by blast
  qed
qed

lemma execute_work_packages:
  assumes q: "queue w = []" and run: "execute_work asserts sys rect w = Inr w'"
  shows "(\<forall>p\<in>set (scheduled (events_since w w')).
            cap_work_rect p = rect \<and>
            - 2147483648 \<le> sint (cap_sub_work_y p) + sint (cap_sub_work_height p) \<and>
            sint (cap_sub_work_y p) + sint (cap_sub_work_height p) \<le> 2147483647) \<and>
         ((\<forall>j>break_queries w. test_break w j) \<longrightarrow> work_funcs (events_since w w') = [])"
proof (cases "test_break w (break_queries w)")
  case True
  then have "w' = w\<lparr>break_queries := Suc (break_queries w)\<rparr>"
    using run by (simp add: execute_work_def is_breaked_def)
  then show ?thesis by (simp add: events_since_def scheduled_def work_funcs_def)
next
  case nb: False
  obtain Hw res where size: "BLI_rcti_size_y rect = Inr Hw"
    and sas: "split_and_submit sys rect (w\<lparr>break_queries := Suc (break_queries w)\<rparr>) = Inr res"
    using execute_work_Inr_size[OF run nb] by blast
  note s = size_y_Inr[OF size]
  show ?thesis
  proof (cases "0 \<le> sint Hw \<and> 1 \<le> sint (num_work_threads sys)")
    case True
    have y: "sint (ymin rect) \<le> sint (ymax rect)" using True s(1) by simp
    have K: "1 \<le> sint (num_work_threads sys)" using True by simp
    obtain w'' where c: "execute_work asserts sys rect w = Inr w''"
        "scheduled (events_since w w'') = sub_works sys rect"
        "(\<forall>j>break_queries w. test_break w j) \<longrightarrow> work_funcs (events_since w w'') = []"
      using execute_work_cycle[OF y s(2) K q nb, of asserts] by blast
    have w: "w'' = w'" using c(1) run by simp
    have "cap_work_rect p = rect \<and>
            - 2147483648 \<le> sint (cap_sub_work_y p) + sint (cap_sub_work_height p) \<and>
            sint (cap_sub_work_y p) + sint (cap_sub_work_height p) \<le> 2147483647"
      if "p \<in> set (sub_works sys rect)" for p
    proof -
      have "good_package (word_of_int (num_sub_works_of sys rect)) p"
        using sub_works_good[OF y s(2) K that] .
      moreover have "cap_work_rect p = rect"
        using that by (auto simp: sub_works_def Let_def)
      ultimately show ?thesis by (simp add: good_package_def)
    qed
    then show ?thesis using c(2,3) unfolding w by simp
  next
    case False
    then have n: "sint (MIN2 (num_work_threads sys) Hw) \<le> 0"
      by (auto simp: MIN2_def)
    have "w' = w\<lparr>break_queries := Suc (break_queries w),
                  scheduler_calls := Suc (scheduler_calls w),
                  num_sub_works_finished := 0,
                  trace := trace w @ [Finish, MutexLock, MutexUnlock]\<rparr>"
      using execute_work_none[OF nb q size n sas, of asserts] run by (simp split: if_splits)
    then show ?thesis by (simp add: events_since_def scheduled_def work_funcs_def)
  qed
qed

section \<open>The destructor\<close>

lemma destructor_unassigned_model:
  assumes "execution_model sys = None"
  shows "ExecutionSystem_destruct sys w = Inl UnassignedPointer"
  using assms by (simp add: ExecutionSystem_destruct_def)

text \<open>
  C9, as the code has it: the destructor of a system whose execution model has been
  assigned first ends the condition variable and the mutex of the completion barrier, and
  only then deletes the execution model, every operation and every execution group, in
  this order; it leaves the lists of operations and groups empty.
\<close>

theorem destructor_order:
  assumes "execution_model sys = Some model"
  shows "\<exists>sys' w'. ExecutionSystem_destruct sys w = Inr (sys', w') \<and>
     trace w' =
       trace w @ [ConditionEnd, MutexEnd, DeleteExecutionModel model]
         @ map DeleteOperation (m_operations sys) @ map DeleteGroup (m_groups sys) \<and>
     m_operations sys' = [] \<and> m_groups sys' = []"
  using assms
  by (simp add: ExecutionSystem_destruct_def Let_def trace_foldl_emit trace_emit)

text \<open>
  C9 as the spec states it (the mutex and the condition variable released last) fails:
  for a system with an assigned model, two operations and one group, everything that
  happens before the execution model is deleted is the release of the condition variable
  and of the mutex.
\<close>

theorem destructor_releases_barrier_first:
  "execution_model four_thread_system = Some TiledExecutionModel \<and>
   (case ExecutionSystem_destruct four_thread_system idle_world of
      Inl e \<Rightarrow> [] | Inr (sys', w') \<Rightarrow> trace w') =
     [ConditionEnd, MutexEnd, DeleteExecutionModel TiledExecutionModel,
      DeleteOperation 1, DeleteOperation 2, DeleteGroup 3] \<and>
   takeWhile (\<lambda>e. e \<noteq> DeleteExecutionModel TiledExecutionModel)
     (case ExecutionSystem_destruct four_thread_system idle_world of
        Inl e \<Rightarrow> [] | Inr (sys', w') \<Rightarrow> trace w') =
     [ConditionEnd, MutexEnd]"
  by (simp add: ExecutionSystem_destruct_def Let_def emit_def four_thread_system_def
      idle_world_def)

theorem destructor_order_witness:
  "execution_model (four_thread_system\<lparr>execution_model := Some FullFrameExecutionModel\<rparr>) =
     Some FullFrameExecutionModel \<and>
   (\<exists>sys' w'.
      ExecutionSystem_destruct
        (four_thread_system\<lparr>execution_model := Some FullFrameExecutionModel\<rparr>) idle_world =
        Inr (sys', w') \<and>
      trace w' =
        [ConditionEnd, MutexEnd, DeleteExecutionModel FullFrameExecutionModel,
         DeleteOperation 1, DeleteOperation 2, DeleteGroup 3] \<and>
      m_operations sys' = [] \<and> m_groups sys' = [])"
proof -
  have m: "execution_model (four_thread_system\<lparr>execution_model := Some FullFrameExecutionModel\<rparr>) =
      Some FullFrameExecutionModel"
    by simp
  have t: "trace idle_world = []" by (simp add: idle_world_def)
  have o: "m_operations (four_thread_system\<lparr>execution_model := Some FullFrameExecutionModel\<rparr>) =
      [1, 2]"
    "m_groups (four_thread_system\<lparr>execution_model := Some FullFrameExecutionModel\<rparr>) = [3]"
    by (simp_all add: four_thread_system_def)
  show ?thesis
    using destructor_order[OF m, of idle_world] m unfolding t o by simp
qed

section \<open>Cancellation at entry\<close>

text \<open>
  C6: when the cancellation probe answers true at entry, \<^verbatim>\<open>execute_work\<close> returns at once.
  The world it leaves differs from the one it found only in the number of probe queries:
  nothing was submitted, the scheduler was not called, nothing was waited for. A second
  call that finds the probe true again does the same.
\<close>

theorem cancelled_at_entry:
  assumes "test_break w (break_queries w)"
  shows "execute_work asserts sys work_rect w = Inr (w\<lparr>break_queries := Suc (break_queries w)\<rparr>) \<and>
         (test_break w (Suc (break_queries w)) \<longrightarrow>
          execute_work asserts sys work_rect (w\<lparr>break_queries := Suc (break_queries w)\<rparr>) =
            Inr (w\<lparr>break_queries := Suc (Suc (break_queries w))\<rparr>))"
  using assms by (simp add: execute_work_def is_breaked_def)

theorem cancelled_at_entry_witness:
  "test_break cancelled_world (break_queries cancelled_world) \<and>
   test_break cancelled_world (Suc (break_queries cancelled_world)) \<and>
   execute_work True four_thread_system ten_rows cancelled_world =
     Inr (cancelled_world\<lparr>break_queries := 1\<rparr>) \<and>
   execute_work True four_thread_system ten_rows (cancelled_world\<lparr>break_queries := 1\<rparr>) =
     Inr (cancelled_world\<lparr>break_queries := 2\<rparr>) \<and>
   trace (cancelled_world\<lparr>break_queries := 2\<rparr>) = [] \<and>
   queue (cancelled_world\<lparr>break_queries := 2\<rparr>) = [] \<and>
   scheduler_calls (cancelled_world\<lparr>break_queries := 2\<rparr>) = 0"
proof -
  have h: "test_break cancelled_world (break_queries cancelled_world)"
    by (simp add: cancelled_world_def)
  have h2: "test_break cancelled_world (Suc (break_queries cancelled_world))"
    by (simp add: cancelled_world_def)
  have q: "break_queries cancelled_world = 0"
    by (simp add: cancelled_world_def)
  note c = cancelled_at_entry [OF h, of True four_thread_system ten_rows]
  have 1: "execute_work True four_thread_system ten_rows cancelled_world =
      Inr (cancelled_world\<lparr>break_queries := 1\<rparr>)"
    using c q by simp
  have 2: "execute_work True four_thread_system ten_rows (cancelled_world\<lparr>break_queries := 1\<rparr>) =
      Inr (cancelled_world\<lparr>break_queries := 2\<rparr>)"
    using c h2 q by (simp add: numeral_2_eq_2)
  show ?thesis
    using h h2 1 2 by (simp add: cancelled_world_def)
qed

section \<open>The split\<close>

text \<open>
  C1: for a work region of height \<open>H \<ge> 0\<close> and a worker count \<open>K \<ge> 1\<close>, with the
  cancellation probe false at entry and no package pending from an earlier cycle,
  \<^verbatim>\<open>execute_work\<close> returns and has submitted exactly \<open>min K H\<close> packages (none when
  \<open>H = 0\<close>); their heights sum to \<open>H\<close>, and the package at position \<open>i\<close> has the base
  height \<open>H div min K H\<close>, one more when \<open>i < H mod min K H\<close>.
\<close>

theorem split_counts_and_heights:
  assumes size: "BLI_rcti_size_y work_rect = Inr H" and H0: "0 \<le> sint H"
    and K: "1 \<le> sint (num_work_threads sys)"
    and q: "queue w = []"
    and nb: "\<not> test_break w (break_queries w)"
  shows "\<exists>w'. execute_work asserts sys work_rect w = Inr w' \<and>
     length (scheduled (events_since w w')) = nat (min (sint (num_work_threads sys)) (sint H)) \<and>
     sum_list (map (\<lambda>p. sint (cap_sub_work_height p)) (scheduled (events_since w w'))) = sint H \<and>
     (\<forall>i<length (scheduled (events_since w w')).
        sint (cap_sub_work_height (scheduled (events_since w w') ! i)) =
          sint H div min (sint (num_work_threads sys)) (sint H) +
          (if int i < sint H mod min (sint (num_work_threads sys)) (sint H) then 1 else 0))"
proof -
  define n where "n = min (sint (num_work_threads sys)) (sint H)"
  note s = size_y_Inr[OF size]
  have y: "sint (ymin work_rect) \<le> sint (ymax work_rect)" using s(1) H0 by simp
  have nn: "num_sub_works_of sys work_rect = n"
    by (simp add: num_sub_works_of_def n_def s(1))
  have n0: "0 \<le> n" "n \<le> sint H" using H0 K by (simp_all add: n_def)
  obtain w' where w': "execute_work asserts sys work_rect w = Inr w'"
      "scheduled (events_since w w') = sub_works sys work_rect"
    using execute_work_cycle[OF y s(2) K q nb, of asserts] by blast
  have hs: "map (\<lambda>p. sint (cap_sub_work_height p)) (sub_works sys work_rect) =
      map (\<lambda>i. sint H div n + (if int i < sint H mod n then 1 else 0)) [0..<nat n]"
    using sub_works_heights[OF y s(2), of sys] by (simp add: nn s(1))
  have len: "length (sub_works sys work_rect) = nat n"
    by (simp add: length_sub_works nn)
  have r0: "0 \<le> sint H mod n"
  proof (cases "n = 0")
    case True then show ?thesis using H0 by simp
  next
    case False then show ?thesis using n0 by simp
  qed
  have "int (nat n) * (sint H div n) + min (int (nat n)) (sint H mod n) = sint H"
  proof (cases "n = 0")
    case True
    then have "sint H = 0" using K by (simp add: n_def min_def split: if_splits)
    then show ?thesis using True by simp
  next
    case False
    then have "0 < n" using n0 by simp
    then have "sint H mod n < n" by simp
    moreover have "n * (sint H div n) + sint H mod n = sint H" by simp
    ultimately show ?thesis using n0 by (simp add: min_def)
  qed
  then have sum: "sum_list (map (\<lambda>p. sint (cap_sub_work_height p)) (sub_works sys work_rect)) = sint H"
    unfolding hs using sum_list_heights[OF r0, of "sint H div n" "nat n"] by simp
  have nth: "sint (cap_sub_work_height (sub_works sys work_rect ! i)) =
      sint H div n + (if int i < sint H mod n then 1 else 0)"
    if "i < length (sub_works sys work_rect)" for i
  proof -
    have "map (\<lambda>p. sint (cap_sub_work_height p)) (sub_works sys work_rect) ! i =
        map (\<lambda>i. sint H div n + (if int i < sint H mod n then 1 else 0)) [0..<nat n] ! i"
      by (simp only: hs)
    then show ?thesis using that len by simp
  qed
  show ?thesis
    using w'(1) len sum nth unfolding w'(2)[symmetric] n_def by blast
qed

theorem split_counts_and_heights_witness:
  "BLI_rcti_size_y ten_rows = Inr 10 \<and> 0 \<le> sint (10 :: c_int) \<and>
   1 \<le> sint (num_work_threads four_thread_system) \<and> queue idle_world = [] \<and>
   \<not> test_break idle_world (break_queries idle_world) \<and>
   (\<exists>w'. execute_work True four_thread_system ten_rows idle_world = Inr w' \<and>
      length (scheduled (events_since idle_world w')) = 4 \<and>
      sum_list (map (\<lambda>p. sint (cap_sub_work_height p)) (scheduled (events_since idle_world w'))) = 10)"
proof -
  have size: "BLI_rcti_size_y ten_rows = Inr 10"
    by (simp add: BLI_rcti_size_y_def c_sub_def c_int_of_def ten_rows_def)
  have H0: "0 \<le> sint (10 :: c_int)" by simp
  have K: "1 \<le> sint (num_work_threads four_thread_system)"
    by (simp add: four_thread_system_def)
  have q: "queue idle_world = []" by (simp add: idle_world_def)
  have nb: "\<not> test_break idle_world (break_queries idle_world)"
    by (simp add: idle_world_def)
  have "\<exists>w'. execute_work True four_thread_system ten_rows idle_world = Inr w' \<and>
      length (scheduled (events_since idle_world w')) = 4 \<and>
      sum_list (map (\<lambda>p. sint (cap_sub_work_height p)) (scheduled (events_since idle_world w'))) = 10"
    using split_counts_and_heights[OF size H0 K q nb, of True]
    by (auto simp: four_thread_system_def)
  then show ?thesis using size H0 K q nb by blast
qed

section \<open>Tiling\<close>

text \<open>
  C3, as the code has it: for a work region with \<open>ymin \<le> ymax\<close> whose height
  \<open>ymax - ymin\<close> fits an \<^verbatim>\<open>int\<close>, and a worker count \<open>K \<ge> 1\<close>, with the cancellation probe
  false at entry and no package pending, the loop ends with \<^verbatim>\<open>sub_work_y\<close> equal to the
  region's \<open>ymax\<close>, so that \<^verbatim>\<open>execute_work\<close> returns in a build with assertions as in
  one without.
  The rectangles of the submitted packages span the region's x-range and are stacked from
  \<open>ymin\<close> to \<open>ymax\<close>: each starts where the one before it ends and none is empty. Hence
  every row of the region lies in exactly one of them, and no other row lies in any.
\<close>

theorem sub_rectangles_tile_region:
  assumes y: "sint (ymin work_rect) \<le> sint (ymax work_rect)"
    and fits: "sint (ymax work_rect) - sint (ymin work_rect) \<le> 2147483647"
    and K: "1 \<le> sint (num_work_threads sys)"
    and q: "queue w = []"
    and nb: "\<not> test_break w (break_queries w)"
  shows "\<exists>n w1 w'.
     split_and_submit sys work_rect (w\<lparr>break_queries := Suc (break_queries w)\<rparr>) =
       Inr (n, ymax work_rect, w1) \<and>
     execute_work asserts sys work_rect w = Inr w' \<and>
     (\<forall>p\<in>set (scheduled (events_since w w')).
        xmin (split_rect p) = xmin work_rect \<and> xmax (split_rect p) = xmax work_rect) \<and>
     stacked (sint (ymin work_rect))
       (map (\<lambda>p. rows (split_rect p)) (scheduled (events_since w w')))
       (sint (ymax work_rect)) \<and>
     (\<forall>row. length (filter (\<lambda>p. sint (ymin (split_rect p)) \<le> row \<and>
                                   row < sint (ymax (split_rect p)))
                      (scheduled (events_since w w'))) =
              (if sint (ymin work_rect) \<le> row \<and> row < sint (ymax work_rect) then 1 else 0))"
proof -
  obtain w1 w' where c:
    "split_and_submit sys work_rect (w\<lparr>break_queries := Suc (break_queries w)\<rparr>) =
       Inr (word_of_int (num_sub_works_of sys work_rect), ymax work_rect, w1)"
    "execute_work asserts sys work_rect w = Inr w'"
    "scheduled (events_since w w') = sub_works sys work_rect"
    using execute_work_cycle[OF y fits K q nb, of asserts] by blast
  have st: "stacked (sint (ymin work_rect))
      (map (\<lambda>p. rows (split_rect p)) (sub_works sys work_rect)) (sint (ymax work_rect))"
    by (rule sub_works_rows[OF y fits K])
  have cnt: "length (filter (\<lambda>p. sint (ymin (split_rect p)) \<le> row \<and>
                                   row < sint (ymax (split_rect p)))
                      (sub_works sys work_rect)) =
              (if sint (ymin work_rect) \<le> row \<and> row < sint (ymax work_rect) then 1 else 0)"
    for row
  proof -
    have "length (filter (\<lambda>(a, b). a \<le> row \<and> row < b)
            (map (\<lambda>p. rows (split_rect p)) (sub_works sys work_rect))) =
        (if sint (ymin work_rect) \<le> row \<and> row < sint (ymax work_rect) then 1 else 0)"
      using st by (rule stacked_count)
    then show ?thesis
      by (simp add: filter_map o_def rows_def)
  qed
  show ?thesis
    using c(1) c(2) sub_works_rects[of _ sys work_rect] st cnt unfolding c(3)[symmetric]
    by blast
qed

text \<open>
  C3 as the spec states it, for every region with \<open>ymin \<le> ymax\<close>, fails where the height
  does not fit an \<^verbatim>\<open>int\<close>: for \<open>ymin = -1\<close> and \<open>ymax = 2147483647\<close> the subtraction of
  line 133 overflows, and nothing is submitted.
\<close>

theorem tall_region_overflows:
  "sint (ymin \<lparr>xmin = 0, xmax = 5, ymin = - 1, ymax = 2147483647 :: c_int\<rparr>) \<le>
     sint (ymax \<lparr>xmin = 0, xmax = 5, ymin = - 1, ymax = 2147483647 :: c_int\<rparr>) \<and>
   1 \<le> sint (num_work_threads four_thread_system) \<and>
   \<not> test_break idle_world (break_queries idle_world) \<and>
   execute_work True four_thread_system
     \<lparr>xmin = 0, xmax = 5, ymin = - 1, ymax = 2147483647\<rparr> idle_world = Inl SignedOverflow \<and>
   execute_work False four_thread_system
     \<lparr>xmin = 0, xmax = 5, ymin = - 1, ymax = 2147483647\<rparr> idle_world = Inl SignedOverflow"
  by (simp add: execute_work_def is_breaked_def split_and_submit_def BLI_rcti_size_y_def
      c_sub_def c_int_of_def idle_world_def four_thread_system_def)

theorem sub_rectangles_tile_region_witness:
  "sint (ymin ten_rows) \<le> sint (ymax ten_rows) \<and>
   sint (ymax ten_rows) - sint (ymin ten_rows) \<le> 2147483647 \<and>
   1 \<le> sint (num_work_threads four_thread_system) \<and> queue idle_world = [] \<and>
   \<not> test_break idle_world (break_queries idle_world) \<and>
   (\<exists>n w1 w'.
      split_and_submit four_thread_system ten_rows (idle_world\<lparr>break_queries := 1\<rparr>) =
        Inr (n, ymax ten_rows, w1) \<and>
      execute_work True four_thread_system ten_rows idle_world = Inr w' \<and>
      stacked 0 (map (\<lambda>p. rows (split_rect p)) (scheduled (events_since idle_world w'))) 10 \<and>
      length (filter (\<lambda>p. sint (ymin (split_rect p)) \<le> 7 \<and> 7 < sint (ymax (split_rect p)))
                (scheduled (events_since idle_world w'))) = 1)"
proof -
  have y: "sint (ymin ten_rows) \<le> sint (ymax ten_rows)" by (simp add: ten_rows_def)
  have fits: "sint (ymax ten_rows) - sint (ymin ten_rows) \<le> 2147483647"
    by (simp add: ten_rows_def)
  have K: "1 \<le> sint (num_work_threads four_thread_system)"
    by (simp add: four_thread_system_def)
  have q: "queue idle_world = []" by (simp add: idle_world_def)
  have nb: "\<not> test_break idle_world (break_queries idle_world)"
    by (simp add: idle_world_def)
  have b: "break_queries idle_world = 0" by (simp add: idle_world_def)
  have r: "sint (ymin ten_rows) = 0" "sint (ymax ten_rows) = 10" by (simp_all add: ten_rows_def)
  obtain n w1 w' where t:
    "split_and_submit four_thread_system ten_rows (idle_world\<lparr>break_queries := 1\<rparr>) =
        Inr (n, ymax ten_rows, w1)"
    "execute_work True four_thread_system ten_rows idle_world = Inr w'"
    "stacked 0 (map (\<lambda>p. rows (split_rect p)) (scheduled (events_since idle_world w'))) 10"
    "\<forall>row. length (filter (\<lambda>p. sint (ymin (split_rect p)) \<le> row \<and>
                                   row < sint (ymax (split_rect p)))
                      (scheduled (events_since idle_world w'))) =
              (if 0 \<le> row \<and> row < 10 then 1 else 0)"
    using sub_rectangles_tile_region[OF y fits K q nb, where asserts = True] unfolding b r
    by auto
  have "length (filter (\<lambda>p. sint (ymin (split_rect p)) \<le> 7 \<and> 7 < sint (ymax (split_rect p)))
                (scheduled (events_since idle_world w'))) = 1"
    using t(4)[rule_format, of 7] by simp
  then show ?thesis using y fits K q nb t(1,2,3) by blast
qed

section \<open>Scenario A\<close>

text \<open>
  C4: for a work region of height 10 and four worker threads, with the cancellation probe
  false at entry and no package pending, \<^verbatim>\<open>execute_work\<close> submits four packages with
  heights 3, 3, 2, 2 in this order, starting 0, 3, 6 and 8 rows above the region's
  \<open>ymin\<close>; the loop ends with \<^verbatim>\<open>sub_work_y\<close> at the region's \<open>ymax\<close>, 10 rows above
  \<open>ymin\<close>.
\<close>

theorem ten_rows_four_workers:
  assumes size: "BLI_rcti_size_y work_rect = Inr 10"
    and K: "num_work_threads sys = 4"
    and q: "queue w = []"
    and nb: "\<not> test_break w (break_queries w)"
  shows "\<exists>w1 w'.
     split_and_submit sys work_rect (w\<lparr>break_queries := Suc (break_queries w)\<rparr>) =
       Inr (4, ymax work_rect, w1) \<and>
     sint (ymax work_rect) = sint (ymin work_rect) + 10 \<and>
     execute_work asserts sys work_rect w = Inr w' \<and>
     map (\<lambda>p. sint (cap_sub_work_height p)) (scheduled (events_since w w')) = [3, 3, 2, 2] \<and>
     map (\<lambda>p. sint (cap_sub_work_y p) - sint (ymin work_rect)) (scheduled (events_since w w')) =
       [0, 3, 6, 8]"
proof -
  note s = size_y_Inr[OF size]
  have H: "sint (ymax work_rect) - sint (ymin work_rect) = 10" using s(1) by simp
  have y: "sint (ymin work_rect) \<le> sint (ymax work_rect)" using H by simp
  have K1: "1 \<le> sint (num_work_threads sys)" using K by simp
  have n: "num_sub_works_of sys work_rect = 4"
    by (simp add: num_sub_works_of_def K H)
  obtain w1 w' where c:
    "split_and_submit sys work_rect (w\<lparr>break_queries := Suc (break_queries w)\<rparr>) =
       Inr (word_of_int (num_sub_works_of sys work_rect), ymax work_rect, w1)"
    "execute_work asserts sys work_rect w = Inr w'"
    "scheduled (events_since w w') = sub_works sys work_rect"
    using execute_work_cycle[OF y s(2) K1 q nb, of asserts] by blast
  have hs: "map (\<lambda>p. sint (cap_sub_work_height p)) (sub_works sys work_rect) = [3, 3, 2, 2]"
    unfolding sub_works_heights[OF y s(2)] n H by (simp add: upt_0_4)
  have "map (\<lambda>p. sint (cap_sub_work_y p)) (sub_works sys work_rect) =
      [sint (ymin work_rect), sint (ymin work_rect) + 3, sint (ymin work_rect) + 6,
       sint (ymin work_rect) + 8]"
    unfolding sub_works_offsets[OF y s(2)] n H by (simp add: upt_0_4)
  then have "map (\<lambda>p. sint (cap_sub_work_y p) - sint (ymin work_rect)) (sub_works sys work_rect) =
      map (\<lambda>v. v - sint (ymin work_rect))
        [sint (ymin work_rect), sint (ymin work_rect) + 3, sint (ymin work_rect) + 6,
         sint (ymin work_rect) + 8]"
    by (simp only: map_map[symmetric, of "\<lambda>v. v - sint (ymin work_rect)" "\<lambda>p. sint (cap_sub_work_y p)", unfolded o_def])
  then have os: "map (\<lambda>p. sint (cap_sub_work_y p) - sint (ymin work_rect)) (sub_works sys work_rect) =
      [0, 3, 6, 8]"
    by simp
  have "split_and_submit sys work_rect (w\<lparr>break_queries := Suc (break_queries w)\<rparr>) =
       Inr (4, ymax work_rect, w1)"
    using c(1) n by simp
  then show ?thesis
    using H c(2) hs os unfolding c(3)[symmetric] by auto
qed

theorem ten_rows_four_workers_witness:
  "BLI_rcti_size_y ten_rows = Inr 10 \<and> num_work_threads four_thread_system = 4 \<and>
   queue idle_world = [] \<and> \<not> test_break idle_world (break_queries idle_world) \<and>
   (\<exists>w1 w'.
      split_and_submit four_thread_system ten_rows (idle_world\<lparr>break_queries := 1\<rparr>) =
        Inr (4, 10, w1) \<and>
      execute_work True four_thread_system ten_rows idle_world = Inr w' \<and>
      map (\<lambda>p. sint (cap_sub_work_height p)) (scheduled (events_since idle_world w')) =
        [3, 3, 2, 2] \<and>
      map (\<lambda>p. sint (cap_sub_work_y p)) (scheduled (events_since idle_world w')) =
        [0, 3, 6, 8])"
proof -
  have size: "BLI_rcti_size_y ten_rows = Inr 10"
    by (simp add: BLI_rcti_size_y_def c_sub_def c_int_of_def ten_rows_def)
  have K: "num_work_threads four_thread_system = 4" by (simp add: four_thread_system_def)
  have q: "queue idle_world = []" by (simp add: idle_world_def)
  have nb: "\<not> test_break idle_world (break_queries idle_world)"
    by (simp add: idle_world_def)
  have b: "break_queries idle_world = 0" by (simp add: idle_world_def)
  have r: "sint (ymin ten_rows) = 0" "ymax ten_rows = 10" by (simp_all add: ten_rows_def)
  have "\<exists>w1 w'.
      split_and_submit four_thread_system ten_rows (idle_world\<lparr>break_queries := 1\<rparr>) =
        Inr (4, 10, w1) \<and>
      execute_work True four_thread_system ten_rows idle_world = Inr w' \<and>
      map (\<lambda>p. sint (cap_sub_work_height p)) (scheduled (events_since idle_world w')) =
        [3, 3, 2, 2] \<and>
      map (\<lambda>p. sint (cap_sub_work_y p)) (scheduled (events_since idle_world w')) =
        [0, 3, 6, 8]"
    using ten_rows_four_workers[OF size K q nb, of True] unfolding b r by auto
  then show ?thesis using size K q nb by blast
qed

section \<open>Regions without rows\<close>

text \<open>
  C2, as the code has it: for a work region of height 0, with the cancellation probe false
  at entry and no package pending, \<^verbatim>\<open>execute_work\<close> submits no package and does not wait
  on the condition variable, but it does call the scheduler: \<^verbatim>\<open>WorkScheduler::finish\<close>
  once, after which it locks and unlocks the mutex and returns. The one exception is a
  negative worker count with a constructor of \<^verbatim>\<open>Vector\<close> that stops on a negative size:
  there the call stops at line 138.
\<close>

theorem empty_region_calls_finish:
  assumes size: "BLI_rcti_size_y work_rect = Inr 0"
    and q: "queue w = []"
    and nb: "\<not> test_break w (break_queries w)"
  shows "execute_work asserts sys work_rect w =
     (if sint (num_work_threads sys) < 0 \<and> \<not> negative_size_returns w
      then Inl NegativeSize
      else Inr (w\<lparr>break_queries := Suc (break_queries w),
                  scheduler_calls := Suc (scheduler_calls w),
                  num_sub_works_finished := 0,
                  trace := trace w @ [Finish, MutexLock, MutexUnlock]\<rparr>))"
proof -
  have "sint (ymin work_rect) = sint (ymax work_rect)"
    using size_y_Inr(1)[OF size] by simp
  then have eq: "ymin work_rect = ymax work_rect" by (rule sint_inj_c)
  have H: "sint (0 :: c_int) \<le> 0" by simp
  show ?thesis
  proof (cases "sint (num_work_threads sys) < 0 \<and> \<not> negative_size_returns w")
    case True
    then have "sint (MIN2 (num_work_threads sys) 0) < 0" by (simp add: MIN2_def)
    then have "Vector_construct w (MIN2 (num_work_threads sys) 0) = Inl NegativeSize"
      using True by (simp add: Vector_construct_stops)
    then show ?thesis
      using execute_work_nonpos_height_stops[OF nb size H, of sys NegativeSize asserts] True
      by simp
  next
    case False
    then have "0 \<le> sint (MIN2 (num_work_threads sys) 0) \<or> negative_size_returns w"
      by (auto simp: MIN2_def)
    then have "Vector_construct w (MIN2 (num_work_threads sys) 0) = Inr ()"
      by (auto simp: Vector_construct_def)
    then show ?thesis
      using execute_work_nonpos_height[OF nb q size H, of sys asserts] eq False by simp
  qed
qed

text \<open>
  C2 as the spec states it ("no Scheduler Service calls made") fails: for the region with
  \<open>ymin = ymax = 3\<close> the events of the call are the barrier and the mutex.
\<close>

theorem empty_region_finish_is_called:
  "BLI_rcti_size_y \<lparr>xmin = 0, xmax = 5, ymin = 3, ymax = 3\<rparr> = Inr 0 \<and>
   \<not> test_break idle_world (break_queries idle_world) \<and>
   (case execute_work True four_thread_system \<lparr>xmin = 0, xmax = 5, ymin = 3, ymax = 3\<rparr>
           idle_world of
      Inl e \<Rightarrow> [] | Inr w' \<Rightarrow> events_since idle_world w') = [Finish, MutexLock, MutexUnlock]"
proof -
  define r :: rcti where "r = \<lparr>xmin = 0, xmax = 5, ymin = 3, ymax = 3\<rparr>"
  have size: "BLI_rcti_size_y r = Inr 0"
    by (simp add: BLI_rcti_size_y_def c_sub_def c_int_of_def r_def)
  have q: "queue idle_world = []" by (simp add: idle_world_def)
  have nb: "\<not> test_break idle_world (break_queries idle_world)"
    by (simp add: idle_world_def)
  have H: "sint (0 :: c_int) \<le> 0" by simp
  have vec: "Vector_construct idle_world (MIN2 (num_work_threads four_thread_system) 0) = Inr ()"
    by (rule Vector_construct_returns) (simp add: idle_world_def)
  have "execute_work True four_thread_system r idle_world =
      Inr (idle_world\<lparr>break_queries := Suc (break_queries idle_world),
            scheduler_calls := Suc (scheduler_calls idle_world),
            num_sub_works_finished := 0,
            trace := trace idle_world @ [Finish, MutexLock, MutexUnlock]\<rparr>)"
    using execute_work_nonpos_height[OF nb q size H vec, of True]
    by (simp add: r_def)
  then show ?thesis
    using size nb unfolding r_def by (simp add: events_since_def)
qed

theorem empty_region_calls_finish_witness:
  "BLI_rcti_size_y \<lparr>xmin = 2, xmax = 9, ymin = - 4, ymax = - 4\<rparr> = Inr 0 \<and>
   queue idle_world = [] \<and> \<not> test_break idle_world (break_queries idle_world) \<and>
   execute_work False four_thread_system \<lparr>xmin = 2, xmax = 9, ymin = - 4, ymax = - 4\<rparr>
     idle_world =
     Inr (idle_world\<lparr>break_queries := 1, scheduler_calls := 1,
            trace := [Finish, MutexLock, MutexUnlock]\<rparr>)"
proof -
  have size: "BLI_rcti_size_y \<lparr>xmin = 2, xmax = 9, ymin = - 4, ymax = - 4\<rparr> = Inr 0"
    by (simp add: BLI_rcti_size_y_def c_sub_def c_int_of_def)
  have q: "queue idle_world = []" by (simp add: idle_world_def)
  have nb: "\<not> test_break idle_world (break_queries idle_world)"
    by (simp add: idle_world_def)
  have K: "\<not> sint (num_work_threads four_thread_system) < 0"
    by (simp add: four_thread_system_def)
  show ?thesis
    using empty_region_calls_finish[OF size q nb, of False four_thread_system] size q nb K
    by (simp add: idle_world_def)
qed

section \<open>Regions of negative height\<close>

text \<open>
  Every call with a region whose \<open>ymax\<close> is below its \<open>ymin\<close>, and whose height fits an
  \<^verbatim>\<open>int\<close>, reaches line 138 with a negative sub-work count. When the constructor of
  \<^verbatim>\<open>Vector\<close> stops on a negative size, the call stops there.
\<close>

lemma negative_height_strict_vector:
  assumes neg: "sint (ymax work_rect) < sint (ymin work_rect)"
    and fits: "- 2147483648 \<le> sint (ymax work_rect) - sint (ymin work_rect)"
    and nb: "\<not> test_break w (break_queries w)"
    and stops: "\<not> negative_size_returns w"
  shows "execute_work asserts sys work_rect w = Inl NegativeSize"
proof -
  define Hw :: c_int where "Hw = word_of_int (sint (ymax work_rect) - sint (ymin work_rect))"
  have size: "BLI_rcti_size_y work_rect = Inr Hw"
    unfolding BLI_rcti_size_y_def c_sub_def Hw_def
    by (rule c_int_of_ok) (use neg fits in linarith)+
  have Hs: "sint Hw = sint (ymax work_rect) - sint (ymin work_rect)"
    using size_y_Inr(1)[OF size] .
  have H: "sint Hw \<le> 0" using Hs neg by simp
  have nneg: "sint (MIN2 (num_work_threads sys) Hw) < 0"
    using Hs neg by (simp add: MIN2_def)
  show ?thesis
    by (rule execute_work_nonpos_height_stops[OF nb size H
          Vector_construct_stops[OF nneg stops]])
qed

text \<open>
  C10, as the code has it: for a region whose \<open>ymax\<close> is below its \<open>ymin\<close> and whose
  height \<open>ymax - ymin\<close> fits an \<^verbatim>\<open>int\<close>, with the cancellation probe false at entry, no
  package pending, and a constructor of \<^verbatim>\<open>Vector\<close> that returns normally when it is given
  a negative size (line 138), the sub-work count is negative and nothing is submitted. In
  a build without assertions \<^verbatim>\<open>execute_work\<close> then calls \<^verbatim>\<open>WorkScheduler::finish\<close> once,
  locks and unlocks the mutex without waiting on the condition variable, and returns.
\<close>

theorem negative_height_region:
  assumes neg: "sint (ymax work_rect) < sint (ymin work_rect)"
    and fits: "- 2147483648 \<le> sint (ymax work_rect) - sint (ymin work_rect)"
    and q: "queue w = []"
    and nb: "\<not> test_break w (break_queries w)"
    and returns: "negative_size_returns w"
  shows "(\<exists>n. split_and_submit sys work_rect (w\<lparr>break_queries := Suc (break_queries w)\<rparr>) =
            Inr (n, ymin work_rect,
                 w\<lparr>break_queries := Suc (break_queries w), num_sub_works_finished := 0\<rparr>) \<and>
          sint n < 0) \<and>
     execute_work False sys work_rect w =
       Inr (w\<lparr>break_queries := Suc (break_queries w),
              scheduler_calls := Suc (scheduler_calls w),
              num_sub_works_finished := 0,
              trace := trace w @ [Finish, MutexLock, MutexUnlock]\<rparr>)"
proof -
  define Hw :: c_int where "Hw = word_of_int (sint (ymax work_rect) - sint (ymin work_rect))"
  have size: "BLI_rcti_size_y work_rect = Inr Hw"
    unfolding BLI_rcti_size_y_def c_sub_def Hw_def
    by (rule c_int_of_ok) (use neg fits in linarith)+
  have Hs: "sint Hw = sint (ymax work_rect) - sint (ymin work_rect)"
    using size_y_Inr(1)[OF size] .
  have H: "sint Hw \<le> 0" using Hs neg by simp
  have nneg: "sint (MIN2 (num_work_threads sys) Hw) < 0"
    using Hs neg by (simp add: MIN2_def)
  have vec: "Vector_construct w (MIN2 (num_work_threads sys) Hw) = Inr ()"
    using returns by (rule Vector_construct_returns)
  have vec': "Vector_construct (w\<lparr>break_queries := Suc (break_queries w)\<rparr>)
      (MIN2 (num_work_threads sys) Hw) = Inr ()"
    using vec by simp
  have "split_and_submit sys work_rect (w\<lparr>break_queries := Suc (break_queries w)\<rparr>) =
      Inr (MIN2 (num_work_threads sys) Hw, ymin work_rect,
           w\<lparr>break_queries := Suc (break_queries w), num_sub_works_finished := 0\<rparr>)"
    using split_and_submit_nonpos_height_returns[OF size H vec'] by simp
  then have 1: "\<exists>n. split_and_submit sys work_rect (w\<lparr>break_queries := Suc (break_queries w)\<rparr>) =
            Inr (n, ymin work_rect,
                 w\<lparr>break_queries := Suc (break_queries w), num_sub_works_finished := 0\<rparr>) \<and>
          sint n < 0"
    using nneg by blast
  have 2: "execute_work False sys work_rect w =
       Inr (w\<lparr>break_queries := Suc (break_queries w),
              scheduler_calls := Suc (scheduler_calls w),
              num_sub_works_finished := 0,
              trace := trace w @ [Finish, MutexLock, MutexUnlock]\<rparr>)"
    using execute_work_nonpos_height[OF nb q size H vec, of False] by simp
  show ?thesis using 1 2 by blast
qed

text \<open>
  C10 as stated, for every region of negative height and every build, fails. For
  \<open>ymin = 1\<close>, \<open>ymax = -2147483648\<close> the height does not fit an \<^verbatim>\<open>int\<close>: the subtraction
  of line 133 overflows. And in a build with assertions the call with the region
  \<open>ymin = 0\<close>, \<open>ymax = -3\<close> does not return, whatever the constructor of \<^verbatim>\<open>Vector\<close> does
  with the size \<open>-3\<close>: when it stops the call stops with it at line 138, and when it
  returns the call stops at \<^verbatim>\<open>BLI_assert(sub_work_y == work_rect.ymax)\<close>, line 172.
\<close>

theorem negative_height_assertion_fails:
  "sint (ymax \<lparr>xmin = 0, xmax = 5, ymin = 1, ymax = - 2147483648 :: c_int\<rparr>) <
     sint (ymin \<lparr>xmin = 0, xmax = 5, ymin = 1, ymax = - 2147483648 :: c_int\<rparr>) \<and>
   \<not> test_break idle_world (break_queries idle_world) \<and>
   execute_work False four_thread_system
     \<lparr>xmin = 0, xmax = 5, ymin = 1, ymax = - 2147483648\<rparr> idle_world = Inl SignedOverflow \<and>
   sint (ymax \<lparr>xmin = 0, xmax = 5, ymin = 0, ymax = - 3 :: c_int\<rparr>) <
     sint (ymin \<lparr>xmin = 0, xmax = 5, ymin = 0, ymax = - 3 :: c_int\<rparr>) \<and>
   \<not> test_break strict_vector_world (break_queries strict_vector_world) \<and>
   execute_work True four_thread_system \<lparr>xmin = 0, xmax = 5, ymin = 0, ymax = - 3\<rparr>
     strict_vector_world = Inl NegativeSize \<and>
   execute_work True four_thread_system \<lparr>xmin = 0, xmax = 5, ymin = 0, ymax = - 3\<rparr>
     idle_world = Inl (AssertionFailed ''sub_work_y == work_rect.ymax'')"
proof -
  define r :: rcti where "r = \<lparr>xmin = 0, xmax = 5, ymin = 0, ymax = - 3\<rparr>"
  have size: "BLI_rcti_size_y r = Inr (- 3)"
    by (simp add: BLI_rcti_size_y_def c_sub_def c_int_of_def r_def)
  have q: "queue idle_world = []" by (simp add: idle_world_def)
  have nb: "\<not> test_break idle_world (break_queries idle_world)"
    by (simp add: idle_world_def)
  have nbs: "\<not> test_break strict_vector_world (break_queries strict_vector_world)"
    by (simp add: strict_vector_world_def)
  have H: "sint (- 3 :: c_int) \<le> 0" by simp
  have K: "MIN2 (num_work_threads four_thread_system) (- 3) = - 3"
    by (simp add: MIN2_def four_thread_system_def)
  have vec: "Vector_construct idle_world (MIN2 (num_work_threads four_thread_system) (- 3)) =
      Inr ()"
    by (rule Vector_construct_returns) (simp add: idle_world_def)
  have stop: "Vector_construct strict_vector_world
      (MIN2 (num_work_threads four_thread_system) (- 3)) = Inl NegativeSize"
    unfolding K by (rule Vector_construct_stops) (simp_all add: strict_vector_world_def)
  have 1: "execute_work True four_thread_system r idle_world =
      Inl (AssertionFailed ''sub_work_y == work_rect.ymax'')"
    using execute_work_nonpos_height[OF nb q size H vec, of True]
    by (simp add: r_def)
  have 2: "execute_work False four_thread_system
     \<lparr>xmin = 0, xmax = 5, ymin = 1, ymax = - 2147483648\<rparr> idle_world = Inl SignedOverflow"
    by (simp add: execute_work_def is_breaked_def split_and_submit_def BLI_rcti_size_y_def
        c_sub_def c_int_of_def idle_world_def)
  have 3: "execute_work True four_thread_system r strict_vector_world = Inl NegativeSize"
    by (rule execute_work_nonpos_height_stops[OF nbs size H stop])
  show ?thesis using 1 2 3 nb nbs unfolding r_def by simp
qed

theorem negative_height_region_witness:
  "sint (ymax \<lparr>xmin = 0, xmax = 5, ymin = 7, ymax = 2 :: c_int\<rparr>) <
     sint (ymin \<lparr>xmin = 0, xmax = 5, ymin = 7, ymax = 2 :: c_int\<rparr>) \<and>
   - 2147483648 \<le> sint (ymax \<lparr>xmin = 0, xmax = 5, ymin = 7, ymax = 2 :: c_int\<rparr>) -
     sint (ymin \<lparr>xmin = 0, xmax = 5, ymin = 7, ymax = 2 :: c_int\<rparr>) \<and>
   queue idle_world = [] \<and> \<not> test_break idle_world (break_queries idle_world) \<and>
   negative_size_returns idle_world \<and>
   split_and_submit four_thread_system \<lparr>xmin = 0, xmax = 5, ymin = 7, ymax = 2\<rparr>
     (idle_world\<lparr>break_queries := 1\<rparr>) = Inr (- 5, 7, idle_world\<lparr>break_queries := 1\<rparr>) \<and>
   execute_work False four_thread_system \<lparr>xmin = 0, xmax = 5, ymin = 7, ymax = 2\<rparr> idle_world =
     Inr (idle_world\<lparr>break_queries := 1, scheduler_calls := 1,
            trace := [Finish, MutexLock, MutexUnlock]\<rparr>)"
proof -
  define r :: rcti where "r = \<lparr>xmin = 0, xmax = 5, ymin = 7, ymax = 2\<rparr>"
  have neg: "sint (ymax r) < sint (ymin r)" by (simp add: r_def)
  have fits: "- 2147483648 \<le> sint (ymax r) - sint (ymin r)" by (simp add: r_def)
  have q: "queue idle_world = []" by (simp add: idle_world_def)
  have nb: "\<not> test_break idle_world (break_queries idle_world)"
    by (simp add: idle_world_def)
  have returns: "negative_size_returns idle_world" by (simp add: idle_world_def)
  have size: "BLI_rcti_size_y r = Inr (- 5)"
    by (simp add: BLI_rcti_size_y_def c_sub_def c_int_of_def r_def)
  have K: "MIN2 (num_work_threads four_thread_system) (- 5) = - 5"
    by (simp add: MIN2_def four_thread_system_def)
  have H: "sint (- 5 :: c_int) \<le> 0" by simp
  have vec: "Vector_construct (idle_world\<lparr>break_queries := 1\<rparr>)
      (MIN2 (num_work_threads four_thread_system) (- 5)) = Inr ()"
    by (rule Vector_construct_returns) (simp add: idle_world_def)
  have sas: "split_and_submit four_thread_system r (idle_world\<lparr>break_queries := 1\<rparr>) =
      Inr (- 5, 7, idle_world\<lparr>break_queries := 1\<rparr>)"
    using split_and_submit_nonpos_height_returns[OF size H vec] unfolding K
    by (simp add: r_def idle_world_def)
  show ?thesis
    using negative_height_region[OF neg fits q nb returns, of four_thread_system]
      neg fits q nb returns sas
    unfolding r_def by (simp add: idle_world_def)
qed

section \<open>The constructor\<close>

text \<open>
  C5, as the code has it: when the execution-model selector is neither \<open>Tiled\<close> nor
  \<open>FullFrame\<close>, the constructor reaches \<^verbatim>\<open>BLI_assert_msg(0, "Non implemented execution
  model")\<close>. In a build with assertions construction stops there, before the worker count
  is recorded; no system exists and nothing was scheduled. In a build without assertions
  the constructor runs on through the \<^verbatim>\<open>break\<close> and completes: the system it returns has
  no execution model assigned, its worker count is recorded, and the constructor itself has
  scheduled nothing.
\<close>

theorem unrecognized_execution_model:
  assumes "selected_execution_model h = Unrecognized v"
  shows "ExecutionSystem_construct True h w =
           Inl (AssertionFailed ''Non implemented execution model'') \<and>
         (\<exists>sys. ExecutionSystem_construct False h w =
                  Inr (sys, w\<lparr>trace := trace w @ [MutexInit, ConditionInit, ConvertToOperations]\<rparr>) \<and>
                execution_model sys = None \<and>
                num_work_threads sys = get_num_cpu_threads h)"
  using assms
  by (simp add: ExecutionSystem_construct_def Let_def BLI_assert_def set_operations_def emit_def)

text \<open>
  C5 as the spec states it (construction always raises a fatal fault) fails in a build
  without assertions: the constructor completes and returns a system without an
  execution model.
\<close>

theorem unrecognized_model_without_assertions:
  "selected_execution_model unrecognized_host = Unrecognized 2 \<and>
   (case ExecutionSystem_construct False unrecognized_host idle_world of
      Inl e \<Rightarrow> False
    | Inr (sys, w') \<Rightarrow>
        execution_model sys = None \<and> num_work_threads sys = 4 \<and>
        trace w' = [MutexInit, ConditionInit, ConvertToOperations])"
  by (simp add: ExecutionSystem_construct_def Let_def BLI_assert_def set_operations_def emit_def
      unrecognized_host_def idle_world_def)

theorem unrecognized_execution_model_witness:
  "selected_execution_model unrecognized_host = Unrecognized 2 \<and>
   ExecutionSystem_construct True unrecognized_host idle_world =
     Inl (AssertionFailed ''Non implemented execution model'') \<and>
   (\<exists>sys. ExecutionSystem_construct False unrecognized_host idle_world =
            Inr (sys, idle_world\<lparr>trace := [MutexInit, ConditionInit, ConvertToOperations]\<rparr>) \<and>
          execution_model sys = None \<and> num_work_threads sys = 4)"
proof -
  have h: "selected_execution_model unrecognized_host = Unrecognized 2"
    by (simp add: unrecognized_host_def)
  have t: "trace idle_world = []" by (simp add: idle_world_def)
  have c: "get_num_cpu_threads unrecognized_host = 4" by (simp add: unrecognized_host_def)
  show ?thesis
    using unrecognized_execution_model[OF h, of idle_world] h unfolding t c by simp
qed

section \<open>The callbacks of a work item\<close>

text \<open>
  C7: every work item that a returning call of \<^verbatim>\<open>execute_work\<close> has built refers to the
  call's region, and its \<^verbatim>\<open>execute_fn\<close>, run in any world \<open>v\<close>, first queries the
  cancellation probe: when the probe answers true the callback returns and the trace
  stays as it was; when it answers false the callback calls the caller's function once, on
  the rectangle with the region's x-range, the item's lower bound and the item's lower
  bound plus its height (no overflow occurs). When the probe answers true at every query
  after the one at the entry of \<^verbatim>\<open>execute_work\<close>, the caller's function is not called in
  the whole cycle.
\<close>

theorem callback_rechecks_probe:
  assumes q: "queue w = []" and run: "execute_work asserts sys work_rect w = Inr w'"
  shows "(\<forall>p\<in>set (scheduled (events_since w w')).
            (\<forall>v. execute_fn p v =
                   Inr (if test_break v (break_queries v)
                        then v\<lparr>break_queries := Suc (break_queries v)\<rparr>
                        else work_func (split_rect p)
                               (v\<lparr>break_queries := Suc (break_queries v)\<rparr>))) \<and>
            xmin (split_rect p) = xmin work_rect \<and> xmax (split_rect p) = xmax work_rect \<and>
            ymin (split_rect p) = cap_sub_work_y p \<and>
            sint (ymax (split_rect p)) = sint (cap_sub_work_y p) + sint (cap_sub_work_height p)) \<and>
         ((\<forall>j>break_queries w. test_break w j) \<longrightarrow> work_funcs (events_since w w') = [])"
proof -
  note pk = execute_work_packages[OF q run]
  have "(\<forall>v. execute_fn p v =
                   Inr (if test_break v (break_queries v)
                        then v\<lparr>break_queries := Suc (break_queries v)\<rparr>
                        else work_func (split_rect p)
                               (v\<lparr>break_queries := Suc (break_queries v)\<rparr>))) \<and>
            xmin (split_rect p) = xmin work_rect \<and> xmax (split_rect p) = xmax work_rect \<and>
            ymin (split_rect p) = cap_sub_work_y p \<and>
            sint (ymax (split_rect p)) = sint (cap_sub_work_y p) + sint (cap_sub_work_height p)"
    if p: "p \<in> set (scheduled (events_since w w'))" for p
  proof -
    have r: "cap_work_rect p = work_rect"
      and lo: "- 2147483648 \<le> sint (cap_sub_work_y p) + sint (cap_sub_work_height p)"
      and hi: "sint (cap_sub_work_y p) + sint (cap_sub_work_height p) \<le> 2147483647"
      using pk p by blast+
    have g: "good_package (cap_num_sub_works p) p"
      using lo hi by (simp add: good_package_def)
    have "execute_fn p v =
        Inr (if test_break v (break_queries v)
             then v\<lparr>break_queries := Suc (break_queries v)\<rparr>
             else work_func (split_rect p) (v\<lparr>break_queries := Suc (break_queries v)\<rparr>))" for v
      by (simp add: execute_fn_good[OF g] work_func_def split_rect_def BLI_rcti_init_def)
    moreover have "sint (ymax (split_rect p)) =
        sint (cap_sub_work_y p) + sint (cap_sub_work_height p)"
      using sint_add_ok[OF lo hi] by (simp add: split_rect_def BLI_rcti_init_def)
    ultimately show ?thesis
      using r by (simp add: split_rect_def BLI_rcti_init_def)
  qed
  then show ?thesis using pk by blast
qed

theorem callback_rechecks_probe_witness:
  "queue idle_world = [] \<and>
   (\<exists>w' p. execute_work True four_thread_system ten_rows idle_world = Inr w' \<and>
      p \<in> set (scheduled (events_since idle_world w')) \<and>
      execute_fn p cancelled_world = Inr (cancelled_world\<lparr>break_queries := 1\<rparr>) \<and>
      execute_fn p idle_world =
        Inr (work_func (split_rect p) (idle_world\<lparr>break_queries := 1\<rparr>)) \<and>
      xmin (split_rect p) = 0 \<and> xmax (split_rect p) = 5)"
proof -
  have y: "sint (ymin ten_rows) \<le> sint (ymax ten_rows)" by (simp add: ten_rows_def)
  have fits: "sint (ymax ten_rows) - sint (ymin ten_rows) \<le> 2147483647"
    by (simp add: ten_rows_def)
  have K: "1 \<le> sint (num_work_threads four_thread_system)"
    by (simp add: four_thread_system_def)
  have q: "queue idle_world = []" by (simp add: idle_world_def)
  have nb: "\<not> test_break idle_world (break_queries idle_world)"
    by (simp add: idle_world_def)
  obtain w' where run: "execute_work True four_thread_system ten_rows idle_world = Inr w'"
    and sch: "scheduled (events_since idle_world w') = sub_works four_thread_system ten_rows"
    using execute_work_cycle[OF y fits K q nb, of True] by blast
  have "length (sub_works four_thread_system ten_rows) = 4"
    by (simp add: length_sub_works num_sub_works_of_def four_thread_system_def ten_rows_def)
  then obtain p where p: "p \<in> set (scheduled (events_since idle_world w'))"
    unfolding sch by (cases "sub_works four_thread_system ten_rows") auto
  note c = callback_rechecks_probe[OF q run, THEN conjunct1, rule_format, OF p]
  have 1: "execute_fn p cancelled_world = Inr (cancelled_world\<lparr>break_queries := 1\<rparr>)"
    using c[THEN conjunct1, rule_format, of cancelled_world] by (simp add: cancelled_world_def)
  have 2: "execute_fn p idle_world =
      Inr (work_func (split_rect p) (idle_world\<lparr>break_queries := 1\<rparr>))"
    using c[THEN conjunct1, rule_format, of idle_world] by (simp add: idle_world_def)
  have 3: "xmin (split_rect p) = 0 \<and> xmax (split_rect p) = 5"
    using c by (simp add: ten_rows_def)
  show ?thesis using q run p 1 2 3 by blast
qed

section \<open>The completion counter\<close>

text \<open>
  C8: in a cycle that is not cancelled at entry (region with \<open>ymin \<le> ymax\<close> whose height
  fits an \<^verbatim>\<open>int\<close>, worker count \<open>K \<ge> 1\<close>, no package pending), whatever the counter held
  before the call: when the submission loop ends, the counter is the number of packages
  that have left the queue (so it counts from zero); the \<^verbatim>\<open>executed_fn\<close> of each package
  locks the mutex, adds exactly one to the counter, notifies the condition variable when
  the counter has reached the number of sub-regions, and unlocks the mutex; and when
  \<^verbatim>\<open>execute_work\<close> returns, the queue is empty and the counter equals the number
  \<open>min K H\<close> of sub-regions submitted.
\<close>

theorem completion_counter:
  assumes y: "sint (ymin work_rect) \<le> sint (ymax work_rect)"
    and fits: "sint (ymax work_rect) - sint (ymin work_rect) \<le> 2147483647"
    and K: "1 \<le> sint (num_work_threads sys)"
    and q: "queue w = []"
    and nb: "\<not> test_break w (break_queries w)"
  shows "\<exists>n w1 w'.
     sint n = min (sint (num_work_threads sys)) (sint (ymax work_rect) - sint (ymin work_rect)) \<and>
     split_and_submit sys work_rect (w\<lparr>break_queries := Suc (break_queries w)\<rparr>) =
       Inr (n, ymax work_rect, w1) \<and>
     0 \<le> sint (num_sub_works_finished w1) \<and>
     sint (num_sub_works_finished w1) + int (length (queue w1)) = sint n \<and>
     execute_work asserts sys work_rect w = Inr w' \<and>
     int (length (scheduled (events_since w w'))) = sint n \<and>
     queue w' = [] \<and>
     sint (num_sub_works_finished w') = sint n \<and>
     (\<forall>p\<in>set (scheduled (events_since w w')). \<forall>v.
        0 \<le> sint (num_sub_works_finished v) \<and> sint (num_sub_works_finished v) < sint n \<longrightarrow>
        (\<exists>v'. executed_fn p v = Inr v' \<and>
           sint (num_sub_works_finished v') = sint (num_sub_works_finished v) + 1 \<and>
           events_since v v' =
             [MutexLock] @
             (if sint (num_sub_works_finished v) + 1 = sint n then [ConditionNotifyOne] else []) @
             [MutexUnlock]))"
proof -
  define n :: c_int where "n = word_of_int (num_sub_works_of sys work_rect)"
  note ns = sint_num_sub_works[OF y fits K, folded n_def]
  obtain w1 w' where c:
    "split_and_submit sys work_rect (w\<lparr>break_queries := Suc (break_queries w)\<rparr>) =
       Inr (n, ymax work_rect, w1)"
    "0 \<le> sint (num_sub_works_finished w1)"
    "sint (num_sub_works_finished w1) + int (length (queue w1)) = num_sub_works_of sys work_rect"
    "execute_work asserts sys work_rect w = Inr w'"
    "scheduled (events_since w w') = sub_works sys work_rect"
    "queue w' = []"
    "sint (num_sub_works_finished w') = num_sub_works_of sys work_rect"
    using execute_work_cycle[OF y fits K q nb, of asserts] unfolding n_def by blast
  have len: "int (length (scheduled (events_since w w'))) = sint n"
    using ns by (simp add: c(5) length_sub_works)
  have cb: "\<exists>v'. executed_fn p v = Inr v' \<and>
           sint (num_sub_works_finished v') = sint (num_sub_works_finished v) + 1 \<and>
           events_since v v' =
             [MutexLock] @
             (if sint (num_sub_works_finished v) + 1 = sint n then [ConditionNotifyOne] else []) @
             [MutexUnlock]"
    if p: "p \<in> set (scheduled (events_since w w'))"
      and v: "0 \<le> sint (num_sub_works_finished v)" "sint (num_sub_works_finished v) < sint n"
    for p v
  proof -
    have "good_package n p"
      using sub_works_good[OF y fits K] p unfolding c(5) n_def by blast
    then have cn: "cap_num_sub_works p = n" by (simp add: good_package_def)
    have lt: "sint (num_sub_works_finished v) < 2147483647"
      using v(2) sint_c_int_le[of n] by linarith
    have s: "sint (num_sub_works_finished v + 1) = sint (num_sub_works_finished v) + 1"
      using sint_add_ok[of "num_sub_works_finished v" 1] v(1) lt by simp
    have eq: "num_sub_works_finished v + 1 = n \<longleftrightarrow> sint (num_sub_works_finished v) + 1 = sint n"
      using s sint_inj_c[of "num_sub_works_finished v + 1" n] by auto
    show ?thesis
      using s eq
      by (simp add: executed_fn_good[OF v(1) lt] cn events_since_def emit_def)
  qed
  show ?thesis
    using ns(1) c(1,2,3,4,6,7) len cb
    unfolding num_sub_works_of_def[symmetric]
    by (intro exI[of _ n] exI[of _ w1] exI[of _ w']) simp
qed

theorem completion_counter_witness:
  "sint (ymin ten_rows) \<le> sint (ymax ten_rows) \<and>
   sint (ymax ten_rows) - sint (ymin ten_rows) \<le> 2147483647 \<and>
   1 \<le> sint (num_work_threads four_thread_system) \<and> queue idle_world = [] \<and>
   \<not> test_break idle_world (break_queries idle_world) \<and>
   (\<exists>w' p v'. execute_work True four_thread_system ten_rows idle_world = Inr w' \<and>
      length (scheduled (events_since idle_world w')) = 4 \<and>
      queue w' = [] \<and> sint (num_sub_works_finished w') = 4 \<and>
      p \<in> set (scheduled (events_since idle_world w')) \<and>
      executed_fn p idle_world = Inr v' \<and> sint (num_sub_works_finished v') = 1 \<and>
      events_since idle_world v' = [MutexLock, MutexUnlock])"
proof -
  have y: "sint (ymin ten_rows) \<le> sint (ymax ten_rows)" by (simp add: ten_rows_def)
  have fits: "sint (ymax ten_rows) - sint (ymin ten_rows) \<le> 2147483647"
    by (simp add: ten_rows_def)
  have K: "1 \<le> sint (num_work_threads four_thread_system)"
    by (simp add: four_thread_system_def)
  have q: "queue idle_world = []" by (simp add: idle_world_def)
  have nb: "\<not> test_break idle_world (break_queries idle_world)"
    by (simp add: idle_world_def)
  have m: "min (sint (num_work_threads four_thread_system))
      (sint (ymax ten_rows) - sint (ymin ten_rows)) = 4"
    by (simp add: four_thread_system_def ten_rows_def)
  note c = completion_counter[OF y fits K q nb, of True, unfolded m]
  obtain n w1 w' where "sint n = 4 \<and>
      split_and_submit four_thread_system ten_rows
        (idle_world\<lparr>break_queries := Suc (break_queries idle_world)\<rparr>) =
        Inr (n, ymax ten_rows, w1) \<and>
      0 \<le> sint (num_sub_works_finished w1) \<and>
      sint (num_sub_works_finished w1) + int (length (queue w1)) = sint n \<and>
      execute_work True four_thread_system ten_rows idle_world = Inr w' \<and>
      int (length (scheduled (events_since idle_world w'))) = sint n \<and>
      queue w' = [] \<and>
      sint (num_sub_works_finished w') = sint n \<and>
      (\<forall>p\<in>set (scheduled (events_since idle_world w')). \<forall>v.
        0 \<le> sint (num_sub_works_finished v) \<and> sint (num_sub_works_finished v) < sint n \<longrightarrow>
        (\<exists>v'. executed_fn p v = Inr v' \<and>
           sint (num_sub_works_finished v') = sint (num_sub_works_finished v) + 1 \<and>
           events_since v v' =
             [MutexLock] @
             (if sint (num_sub_works_finished v) + 1 = sint n then [ConditionNotifyOne] else []) @
             [MutexUnlock]))"
    using c by (elim exE) (rule that)
  then have t: "sint n = 4"
    "execute_work True four_thread_system ten_rows idle_world = Inr w'"
    "int (length (scheduled (events_since idle_world w'))) = sint n"
    "queue w' = []" "sint (num_sub_works_finished w') = sint n"
    and cb: "\<forall>p\<in>set (scheduled (events_since idle_world w')). \<forall>v.
        0 \<le> sint (num_sub_works_finished v) \<and> sint (num_sub_works_finished v) < sint n \<longrightarrow>
        (\<exists>v'. executed_fn p v = Inr v' \<and>
           sint (num_sub_works_finished v') = sint (num_sub_works_finished v) + 1 \<and>
           events_since v v' =
             [MutexLock] @
             (if sint (num_sub_works_finished v) + 1 = sint n then [ConditionNotifyOne] else []) @
             [MutexUnlock])"
    by blast+
  have len: "length (scheduled (events_since idle_world w')) = 4"
    using t(1,3) by simp
  then obtain p where p: "p \<in> set (scheduled (events_since idle_world w'))"
    by (cases "scheduled (events_since idle_world w')") auto
  have f0: "sint (num_sub_works_finished idle_world) = 0" by (simp add: idle_world_def)
  obtain v' where v': "executed_fn p idle_world = Inr v'"
    "sint (num_sub_works_finished v') = 1" "events_since idle_world v' = [MutexLock, MutexUnlock]"
    using cb[rule_format, OF p, of idle_world] unfolding f0 t(1) by auto
  show ?thesis using y fits K q nb t len p v' by auto
qed

end
